theory Spec2Isabelle
  imports Main
begin

section \<open>The element type and the world around the container\<close>

text \<open>
  \<^verbatim>\<open>Vector<T>\<close> of \<^verbatim>\<open>src/Vector/vector.h\<close> is generic in \<^verbatim>\<open>T\<close>. What the
  container sees of \<^verbatim>\<open>T\<close> is collected in a record: the two type traits that
  \<^verbatim>\<open>CopyOrMoveData\<close> and \<^verbatim>\<open>CopyOrMovePartData\<close> branch on, the value a
  value-initialised object has, the state a moved-from object is left in, the size
  \<^verbatim>\<open>sizeof(T)\<close> of an object in bytes, and a
  schedule that says which of the operations that may throw do throw: the
  \<open>k\<close>-th such operation of a run (an allocation by \<^verbatim>\<open>operator new\<close>, a
  constructor of \<^verbatim>\<open>T\<close>, an assignment of \<^verbatim>\<open>T\<close>) throws iff \<open>throws E k\<close>.
  A move construction of a type with \<^verbatim>\<open>is_nothrow_move_constructible_v<T>\<close>
  does not consult the schedule. Destructors never throw.
\<close>

record 'a elem =
  is_nothrow_move_constructible :: bool
  is_copy_constructible :: bool
  size_of :: nat
  value_init :: 'a
  moved_from :: "'a \<Rightarrow> 'a"
  throws :: "nat \<Rightarrow> bool"

text \<open>
  The world carries the number of throwing-capable operations performed so far
  and, as a ghost field, the objects whose storage was given up while they were
  still alive (no destructor ran for them).
\<close>

record 'a world =
  clock :: nat
  leaked :: "'a list"

definition tick :: "'a world \<Rightarrow> 'a world" where
  "tick w = w\<lparr>clock := Suc (clock w)\<rparr>"

text \<open>
  A slot of raw memory is \<open>None\<close> when it holds no object and \<open>Some v\<close> when it
  holds a live object of value \<open>v\<close>. Positions (\<^verbatim>\<open>T*\<close>, \<^verbatim>\<open>iterator\<close>) are
  offsets from the start of the buffer they point into. The size and the capacity
  of a container are natural numbers: a buffer of \<open>n\<close> slots occupies
  \<open>n * sizeof(T)\<close> bytes of the address space, so the counts of a live container,
  and twice such a count, stay below the wrap-around of \<^verbatim>\<open>size_t\<close>. A capacity
  or size that the caller passes in can be any \<^verbatim>\<open>size_t\<close>, and the arithmetic
  on it is written out with its wrap-around; \<^verbatim>\<open>size_t\<close> has 64 bits.
\<close>

type_synonym 'a slots = "'a option list"

definition SIZE_MAX :: nat where
  "SIZE_MAX = 2 ^ 64 - 1"

text \<open>\<^verbatim>\<open>--size_\<close> on a \<^verbatim>\<open>size_t\<close>\<close>

definition size_t_dec :: "nat \<Rightarrow> nat" where
  "size_t_dec n = (if n = 0 then SIZE_MAX else n - 1)"

text \<open>
  The number of objects that fit the block \<^verbatim>\<open>operator new(n * sizeof(T))\<close> hands
  out, the product being taken in \<^verbatim>\<open>size_t\<close>; and the requests whose product
  does not wrap, for which that number is \<open>n\<close>.
\<close>

definition block_slots :: "'a elem \<Rightarrow> nat \<Rightarrow> nat" where
  "block_slots E n = ((n * size_of E) mod (SIZE_MAX + 1)) div size_of E"

definition request_fits :: "'a elem \<Rightarrow> nat \<Rightarrow> bool" where
  "request_fits E n = (0 < size_of E \<and> n * size_of E \<le> SIZE_MAX)"

definition live :: "'a slots \<Rightarrow> 'a list" where
  "live buf = map the (filter (\<lambda>s. s \<noteq> None) buf)"

text \<open>Result of a standard algorithm: the clock and the buffers afterwards.\<close>

datatype 'b res = Ok nat 'b | Exn nat 'b

text \<open>
  Result of an operation of the container. \<open>Aborted\<close> is a failed \<^verbatim>\<open>assert\<close>
  (the asserts are compiled in); \<open>Undefined\<close> is a call that writes past the end of
  the block it allocated, about which the model says nothing more.
\<close>

datatype ('a, 'r, 'e) outcome =
    Returned "'a world" 'r
  | Threw "'a world" 'e
  | Aborted
  | Undefined

section \<open>The standard algorithms the container calls\<close>

text \<open>\<^verbatim>\<open>std::destroy_n(first, n)\<close>\<close>

fun destroy_n :: "'a slots \<Rightarrow> nat \<Rightarrow> nat \<Rightarrow> 'a slots" where
  "destroy_n buf first 0 = buf"
| "destroy_n buf first (Suc n) = destroy_n (buf[first := None]) (Suc first) n"

text \<open>
  \<^verbatim>\<open>std::uninitialized_value_construct_n(first, n)\<close>: when a constructor throws,
  the objects constructed so far are destroyed and the exception goes on.
\<close>

fun uninitialized_value_construct_n ::
  "'a elem \<Rightarrow> nat \<Rightarrow> 'a slots \<Rightarrow> nat \<Rightarrow> nat \<Rightarrow> 'a slots res" where
  "uninitialized_value_construct_n E k buf first 0 = Ok k buf"
| "uninitialized_value_construct_n E k buf first (Suc n) =
     (if throws E k then Exn (Suc k) buf
      else case uninitialized_value_construct_n E (Suc k)
                  (buf[first := Some (value_init E)]) (Suc first) n of
             Ok k' buf' \<Rightarrow> Ok k' buf'
           | Exn k' buf' \<Rightarrow> Exn k' (buf'[first := None]))"

text \<open>
  \<^verbatim>\<open>std::uninitialized_copy_n(first, n, d_first)\<close> from one buffer into another,
  with the same clean-up on a throwing copy constructor.
\<close>

fun uninitialized_copy_n ::
  "'a elem \<Rightarrow> nat \<Rightarrow> 'a slots \<Rightarrow> nat \<Rightarrow> nat \<Rightarrow> 'a slots \<Rightarrow> nat \<Rightarrow> 'a slots res" where
  "uninitialized_copy_n E k src first 0 dst d_first = Ok k dst"
| "uninitialized_copy_n E k src first (Suc n) dst d_first =
     (if throws E k then Exn (Suc k) dst
      else case uninitialized_copy_n E (Suc k) src (Suc first) n
                  (dst[d_first := src ! first]) (Suc d_first) of
             Ok k' dst' \<Rightarrow> Ok k' dst'
           | Exn k' dst' \<Rightarrow> Exn k' (dst'[d_first := None]))"

definition uninitialized_copy ::
  "'a elem \<Rightarrow> nat \<Rightarrow> 'a slots \<Rightarrow> nat \<Rightarrow> nat \<Rightarrow> 'a slots \<Rightarrow> nat \<Rightarrow> 'a slots res" where
  "uninitialized_copy E k src first lst dst d_first =
     uninitialized_copy_n E k src first (lst - first) dst d_first"

text \<open>
  Move construction: the new object takes the value, the source stays alive in
  its moved-from state.
\<close>

definition move_ctor_throws :: "'a elem \<Rightarrow> nat \<Rightarrow> bool" where
  "move_ctor_throws E k = (\<not> is_nothrow_move_constructible E \<and> throws E k)"

definition move_ctor_clock :: "'a elem \<Rightarrow> nat \<Rightarrow> nat" where
  "move_ctor_clock E k = (if is_nothrow_move_constructible E then k else Suc k)"

text \<open>\<^verbatim>\<open>std::uninitialized_move_n(first, n, d_first)\<close> from one buffer into another.\<close>

fun uninitialized_move_n ::
  "'a elem \<Rightarrow> nat \<Rightarrow> 'a slots \<Rightarrow> nat \<Rightarrow> nat \<Rightarrow> 'a slots \<Rightarrow> nat
     \<Rightarrow> ('a slots \<times> 'a slots) res" where
  "uninitialized_move_n E k src first 0 dst d_first = Ok k (src, dst)"
| "uninitialized_move_n E k src first (Suc n) dst d_first =
     (if move_ctor_throws E k then Exn (Suc k) (src, dst)
      else case uninitialized_move_n E (move_ctor_clock E k)
                  (src[first := map_option (moved_from E) (src ! first)]) (Suc first) n
                  (dst[d_first := src ! first]) (Suc d_first) of
             Ok k' r \<Rightarrow> Ok k' r
           | Exn k' (src', dst') \<Rightarrow> Exn k' (src', dst'[d_first := None]))"

definition uninitialized_move ::
  "'a elem \<Rightarrow> nat \<Rightarrow> 'a slots \<Rightarrow> nat \<Rightarrow> nat \<Rightarrow> 'a slots \<Rightarrow> nat
     \<Rightarrow> ('a slots \<times> 'a slots) res" where
  "uninitialized_move E k src first lst dst d_first =
     uninitialized_move_n E k src first (lst - first) dst d_first"

text \<open>The same algorithm when source and destination lie in one buffer.\<close>

fun uninitialized_move_n_within ::
  "'a elem \<Rightarrow> nat \<Rightarrow> 'a slots \<Rightarrow> nat \<Rightarrow> nat \<Rightarrow> nat \<Rightarrow> 'a slots res" where
  "uninitialized_move_n_within E k buf first 0 d_first = Ok k buf"
| "uninitialized_move_n_within E k buf first (Suc n) d_first =
     (if move_ctor_throws E k then Exn (Suc k) buf
      else case uninitialized_move_n_within E (move_ctor_clock E k)
                  (buf[d_first := buf ! first,
                       first := map_option (moved_from E) (buf ! first)])
                  (Suc first) n (Suc d_first) of
             Ok k' buf' \<Rightarrow> Ok k' buf'
           | Exn k' buf' \<Rightarrow> Exn k' (buf'[d_first := None]))"

text \<open>
  \<^verbatim>\<open>std::move_backward(first, last, d_last)\<close> inside one buffer: move-assigns
  from the back, \<^verbatim>\<open>*(--d_last) = std::move(*(--last))\<close>, with no clean-up when
  an assignment throws. The recursion runs on the number of elements left,
  \<open>last - first\<close>.
\<close>

fun move_backward_n ::
  "'a elem \<Rightarrow> nat \<Rightarrow> 'a slots \<Rightarrow> nat \<Rightarrow> nat \<Rightarrow> nat \<Rightarrow> 'a slots res" where
  "move_backward_n E k buf first 0 d_last = Ok k buf"
| "move_backward_n E k buf first (Suc n) d_last =
     (if throws E k then Exn (Suc k) buf
      else move_backward_n E (Suc k)
             (buf[d_last - 1 := buf ! (first + n),
                  first + n := map_option (moved_from E) (buf ! (first + n))])
             first n (d_last - 1))"

definition move_backward ::
  "'a elem \<Rightarrow> nat \<Rightarrow> 'a slots \<Rightarrow> nat \<Rightarrow> nat \<Rightarrow> nat \<Rightarrow> 'a slots res" where
  "move_backward E k buf first lst d_last =
     move_backward_n E k buf first (lst - first) d_last"

text \<open>
  \<^verbatim>\<open>std::move(first, last, d_first)\<close> inside one buffer: move-assigns from the
  front, \<^verbatim>\<open>*d_first++ = std::move(*first++)\<close>. The loop counts \<open>last - first\<close>
  down while it is positive, so it does not run when \<open>first\<close> lies beyond \<open>last\<close>.
\<close>

fun move_n ::
  "'a elem \<Rightarrow> nat \<Rightarrow> 'a slots \<Rightarrow> nat \<Rightarrow> nat \<Rightarrow> nat \<Rightarrow> 'a slots res" where
  "move_n E k buf first 0 d_first = Ok k buf"
| "move_n E k buf first (Suc n) d_first =
     (if throws E k then Exn (Suc k) buf
      else move_n E (Suc k)
             (buf[d_first := buf ! first,
                  first := map_option (moved_from E) (buf ! first)])
             (Suc first) n (Suc d_first))"

definition std_move ::
  "'a elem \<Rightarrow> nat \<Rightarrow> 'a slots \<Rightarrow> nat \<Rightarrow> nat \<Rightarrow> nat \<Rightarrow> 'a slots res" where
  "std_move E k buf first lst d_first = move_n E k buf first (lst - first) d_first"

text \<open>\<^verbatim>\<open>std::copy_n(first, n, d_first)\<close> from one buffer into another: copy-assigns.\<close>

fun copy_n ::
  "'a elem \<Rightarrow> nat \<Rightarrow> 'a slots \<Rightarrow> nat \<Rightarrow> nat \<Rightarrow> 'a slots \<Rightarrow> nat \<Rightarrow> 'a slots res" where
  "copy_n E k src first 0 dst d_first = Ok k dst"
| "copy_n E k src first (Suc n) dst d_first =
     (if throws E k then Exn (Suc k) dst
      else copy_n E (Suc k) src (Suc first) n (dst[d_first := src ! first]) (Suc d_first))"

section \<open>\<^verbatim>\<open>RawMemory<T>\<close>\<close>

text \<open>
  The members \<^verbatim>\<open>buffer_\<close>, \<^verbatim>\<open>capacity_\<close>, \<^verbatim>\<open>data_\<close> and \<^verbatim>\<open>size_\<close> are the fields
  \<open>m_buffer\<close>, \<open>m_capacity\<close>, \<open>m_data\<close> and \<open>m_size\<close> (a name may not end in an
  underscore here). The move constructor of \<^verbatim>\<open>RawMemory\<close> and its \<^verbatim>\<open>operator+\<close> are
  never called by \<^verbatim>\<open>Vector\<close> and are left out.
\<close>

record 'a RawMemory =
  m_buffer :: "'a slots"
  m_capacity :: nat

text \<open>\<^verbatim>\<open>RawMemory() = default\<close>: the null buffer is the empty list of slots.\<close>

definition RawMemory_default :: "'a RawMemory" where
  "RawMemory_default = \<lparr>m_buffer = [], m_capacity = 0\<rparr>"

text \<open>
  \<^verbatim>\<open>Allocate(n)\<close>: \<^verbatim>\<open>operator new(n * sizeof(T))\<close> may throw; no call for
  \<open>n = 0\<close>. The block holds \<open>block_slots E n\<close> objects.
\<close>

definition Allocate :: "'a elem \<Rightarrow> 'a world \<Rightarrow> nat \<Rightarrow> ('a, 'a slots, unit) outcome" where
  "Allocate E w n =
     (if n \<noteq> 0 then
        (if throws E (clock w) then Threw (tick w) ()
         else Returned (tick w) (replicate (block_slots E n) None))
      else Returned w [])"

text \<open>
  \<^verbatim>\<open>Deallocate(buf)\<close> gives the storage back and runs no destructor: objects
  still alive in it are lost.
\<close>

definition Deallocate :: "'a world \<Rightarrow> 'a slots \<Rightarrow> 'a world" where
  "Deallocate w buf = w\<lparr>leaked := leaked w @ live buf\<rparr>"

text \<open>
  \<^verbatim>\<open>explicit RawMemory(size_t capacity)\<close>, for a capacity the caller of the
  container chose (\<^verbatim>\<open>Reserve\<close>, \<^verbatim>\<open>Resize\<close>, \<^verbatim>\<open>Vector(size_t)\<close>): the capacity
  recorded is the one asked for, whatever the block holds.
\<close>

definition RawMemory_new ::
  "'a elem \<Rightarrow> 'a world \<Rightarrow> nat \<Rightarrow> ('a, 'a RawMemory, unit) outcome" where
  "RawMemory_new E w capacity =
     (case Allocate E w capacity of
        Returned w' buf \<Rightarrow> Returned w' \<lparr>m_buffer = buf, m_capacity = capacity\<rparr>
      | Threw w' u \<Rightarrow> Threw w' ()
      | Aborted \<Rightarrow> Aborted
      | Undefined \<Rightarrow> Undefined)"

text \<open>
  The same constructor where the capacity is the size of a live container or twice
  it (the copy constructor, \<^verbatim>\<open>EmplaceBack\<close>, \<^verbatim>\<open>Emplace\<close>). The container
  occupies \<open>size * sizeof(T)\<close> bytes and no object is larger than half the address
  space, so the product of such a request does not wrap and the block holds
  \<open>capacity\<close> objects.
\<close>

definition RawMemory_live ::
  "'a elem \<Rightarrow> 'a world \<Rightarrow> nat \<Rightarrow> ('a, 'a RawMemory, unit) outcome" where
  "RawMemory_live E w capacity =
     (if capacity \<noteq> 0 then
        (if throws E (clock w) then Threw (tick w) ()
         else Returned (tick w) \<lparr>m_buffer = replicate capacity None, m_capacity = capacity\<rparr>)
      else Returned w \<lparr>m_buffer = [], m_capacity = 0\<rparr>)"

text \<open>\<^verbatim>\<open>~RawMemory()\<close>\<close>

definition RawMemory_dtor :: "'a world \<Rightarrow> 'a RawMemory \<Rightarrow> 'a world" where
  "RawMemory_dtor w m = Deallocate w (m_buffer m)"

text \<open>
  \<^verbatim>\<open>RawMemory& operator=(RawMemory&& rhs)\<close> on two different objects: returns
  the world, \<^verbatim>\<open>*this\<close> and \<^verbatim>\<open>rhs\<close> afterwards. The buffer \<^verbatim>\<open>*this\<close> held before
  is overwritten without being deallocated, so what was alive in it is lost.
\<close>

definition RawMemory_move_assign ::
  "'a world \<Rightarrow> 'a RawMemory \<Rightarrow> 'a RawMemory \<Rightarrow> 'a world \<times> 'a RawMemory \<times> 'a RawMemory" where
  "RawMemory_move_assign w this rhs =
     (w\<lparr>leaked := leaked w @ live (m_buffer this)\<rparr>,
      \<lparr>m_buffer = m_buffer rhs, m_capacity = m_capacity rhs\<rparr>,
      \<lparr>m_buffer = [], m_capacity = 0\<rparr>)"

text \<open>\<^verbatim>\<open>T& operator[](size_t index)\<close>: the position of the slot, \<open>None\<close> when the assert fails.\<close>

definition RawMemory_at :: "'a RawMemory \<Rightarrow> nat \<Rightarrow> nat option" where
  "RawMemory_at m index = (if index < m_capacity m then Some index else None)"

text \<open>\<^verbatim>\<open>void Swap(RawMemory& other)\<close>: \<^verbatim>\<open>*this\<close> and \<^verbatim>\<open>other\<close> afterwards.\<close>

definition RawMemory_Swap :: "'a RawMemory \<Rightarrow> 'a RawMemory \<Rightarrow> 'a RawMemory \<times> 'a RawMemory" where
  "RawMemory_Swap this other =
     (\<lparr>m_buffer = m_buffer other, m_capacity = m_capacity other\<rparr>,
      \<lparr>m_buffer = m_buffer this, m_capacity = m_capacity this\<rparr>)"

section \<open>\<^verbatim>\<open>Vector<T>\<close>\<close>

record 'a Vector =
  m_data :: "'a RawMemory"
  m_size :: nat

definition Size :: "'a Vector \<Rightarrow> nat" where
  "Size v = m_size v"

definition Capacity :: "'a Vector \<Rightarrow> nat" where
  "Capacity v = m_capacity (m_data v)"

text \<open>\<^verbatim>\<open>begin()\<close> and \<^verbatim>\<open>end()\<close> as offsets into the buffer of the container.\<close>

definition begin_pos :: "'a Vector \<Rightarrow> nat" where
  "begin_pos v = 0"

definition end_pos :: "'a Vector \<Rightarrow> nat" where
  "end_pos v = m_size v"

text \<open>The slots of the buffer the container owns, and writing through \<^verbatim>\<open>data_.GetAddress()\<close>.\<close>

definition slots_of :: "'a Vector \<Rightarrow> 'a slots" where
  "slots_of v = m_buffer (m_data v)"

definition with_slots :: "'a Vector \<Rightarrow> 'a slots \<Rightarrow> 'a Vector" where
  "with_slots v buf = v\<lparr>m_data := (m_data v)\<lparr>m_buffer := buf\<rparr>\<rparr>"

text \<open>\<^verbatim>\<open>Vector() = default\<close>\<close>

definition Vector_default :: "'a Vector" where
  "Vector_default = \<lparr>m_data = RawMemory_default, m_size = 0\<rparr>"

text \<open>
  \<^verbatim>\<open>explicit Vector(size_t size)\<close>. When the body of a constructor throws, the
  member \<^verbatim>\<open>data_\<close> is destroyed and no container comes into being. When the block
  is shorter than \<open>size\<close>, the construction of the elements runs past its end.
\<close>

definition Vector_sized :: "'a elem \<Rightarrow> 'a world \<Rightarrow> nat \<Rightarrow> ('a, 'a Vector, unit) outcome" where
  "Vector_sized E w n =
     (case RawMemory_new E w n of
        Returned w1 d \<Rightarrow>
          (if length (m_buffer d) < n then Undefined
           else
             (case uninitialized_value_construct_n E (clock w1) (m_buffer d) 0 n of
                Ok k buf \<Rightarrow>
                  Returned (w1\<lparr>clock := k\<rparr>) \<lparr>m_data = d\<lparr>m_buffer := buf\<rparr>, m_size = n\<rparr>
              | Exn k buf \<Rightarrow>
                  Threw (RawMemory_dtor (w1\<lparr>clock := k\<rparr>) (d\<lparr>m_buffer := buf\<rparr>)) ()))
      | Threw w1 u \<Rightarrow> Threw w1 ()
      | Aborted \<Rightarrow> Aborted
      | Undefined \<Rightarrow> Undefined)"

text \<open>\<^verbatim>\<open>Vector(const Vector& other)\<close>\<close>

definition Vector_copy :: "'a elem \<Rightarrow> 'a world \<Rightarrow> 'a Vector \<Rightarrow> ('a, 'a Vector, unit) outcome" where
  "Vector_copy E w other =
     (case RawMemory_live E w (m_size other) of
        Returned w1 d \<Rightarrow>
          (case uninitialized_copy_n E (clock w1) (slots_of other) 0 (m_size other) (m_buffer d) 0 of
             Ok k buf \<Rightarrow>
               Returned (w1\<lparr>clock := k\<rparr>) \<lparr>m_data = d\<lparr>m_buffer := buf\<rparr>, m_size = m_size other\<rparr>
           | Exn k buf \<Rightarrow> Threw (RawMemory_dtor (w1\<lparr>clock := k\<rparr>) (d\<lparr>m_buffer := buf\<rparr>)) ())
      | Threw w1 u \<Rightarrow> Threw w1 ()
      | Aborted \<Rightarrow> Aborted
      | Undefined \<Rightarrow> Undefined)"

text \<open>
  \<^verbatim>\<open>Vector(Vector&& other) noexcept\<close>: the world, the new container and \<^verbatim>\<open>other\<close>
  afterwards. \<^verbatim>\<open>data_\<close> and \<^verbatim>\<open>size_\<close> start from their default initialisers.
\<close>

definition Vector_move :: "'a world \<Rightarrow> 'a Vector \<Rightarrow> 'a world \<times> 'a Vector \<times> 'a Vector" where
  "Vector_move w other =
     (case RawMemory_move_assign w RawMemory_default (m_data other) of
        (w1, d, od) \<Rightarrow> (w1, \<lparr>m_data = d, m_size = m_size other\<rparr>, \<lparr>m_data = od, m_size = 0\<rparr>))"

text \<open>\<^verbatim>\<open>~Vector()\<close>\<close>

definition Vector_dtor :: "'a world \<Rightarrow> 'a Vector \<Rightarrow> 'a world" where
  "Vector_dtor w v = RawMemory_dtor w ((m_data v)\<lparr>m_buffer := destroy_n (slots_of v) 0 (m_size v)\<rparr>)"

text \<open>\<^verbatim>\<open>void Swap(Vector& other) noexcept\<close>: \<^verbatim>\<open>*this\<close> and \<^verbatim>\<open>other\<close> afterwards.\<close>

definition Swap :: "'a Vector \<Rightarrow> 'a Vector \<Rightarrow> 'a Vector \<times> 'a Vector" where
  "Swap this other =
     (case RawMemory_Swap (m_data this) (m_data other) of
        (d, od) \<Rightarrow> (\<lparr>m_data = d, m_size = m_size other\<rparr>, \<lparr>m_data = od, m_size = m_size this\<rparr>))"

text \<open>
  The argument of an assignment is \<^verbatim>\<open>*this\<close> itself or another container; the
  source tells them apart by address (\<^verbatim>\<open>this != &rhs\<close>).
\<close>

datatype 'a other = This | Other "'a Vector"

text \<open>\<^verbatim>\<open>Vector& operator=(const Vector& rhs)\<close>\<close>

fun copy_assign ::
  "'a elem \<Rightarrow> 'a world \<Rightarrow> 'a Vector \<Rightarrow> 'a other \<Rightarrow> ('a, 'a Vector, 'a Vector) outcome" where
  "copy_assign E w this This = Returned w this"
| "copy_assign E w this (Other rhs) =
     (if m_size rhs > m_capacity (m_data this) then
        (case Vector_copy E w rhs of
           Returned w1 rhs_copy \<Rightarrow>
             (case Swap this rhs_copy of
                (this', rhs_copy') \<Rightarrow> Returned (Vector_dtor w1 rhs_copy') this')
         | Threw w1 u \<Rightarrow> Threw w1 this
         | Aborted \<Rightarrow> Aborted
         | Undefined \<Rightarrow> Undefined)
      else if m_size this > Size rhs then
        (case copy_n E (clock w) (slots_of rhs) 0 (Size rhs) (slots_of this) 0 of
           Ok k buf \<Rightarrow>
             Returned (w\<lparr>clock := k\<rparr>)
               ((with_slots this (destroy_n buf (Size rhs) (m_size this - Size rhs)))
                  \<lparr>m_size := Size rhs\<rparr>)
         | Exn k buf \<Rightarrow> Threw (w\<lparr>clock := k\<rparr>) (with_slots this buf))
      else
        (case copy_n E (clock w) (slots_of rhs) 0 (m_size this) (slots_of this) 0 of
           Ok k buf \<Rightarrow>
             (case uninitialized_copy_n E k (slots_of rhs) (m_size this)
                     (Size rhs - m_size this) buf (m_size this) of
                Ok k' buf' \<Rightarrow>
                  Returned (w\<lparr>clock := k'\<rparr>) ((with_slots this buf')\<lparr>m_size := Size rhs\<rparr>)
              | Exn k' buf' \<Rightarrow> Threw (w\<lparr>clock := k'\<rparr>) (with_slots this buf'))
         | Exn k buf \<Rightarrow> Threw (w\<lparr>clock := k\<rparr>) (with_slots this buf)))"

text \<open>
  \<^verbatim>\<open>Vector& operator=(Vector&& rhs) noexcept\<close>: the world, \<^verbatim>\<open>*this\<close> and, when
  it is another object, \<^verbatim>\<open>rhs\<close> afterwards. On \<^verbatim>\<open>*this\<close> itself each
  \<^verbatim>\<open>std::exchange\<close> stores its new value and the assignment then puts the old one
  back. The elements \<^verbatim>\<open>*this\<close> held are not destroyed.
\<close>

fun move_assign ::
  "'a world \<Rightarrow> 'a Vector \<Rightarrow> 'a other \<Rightarrow> 'a world \<times> 'a Vector \<times> 'a other" where
  "move_assign w this This = (w, this, This)"
| "move_assign w this (Other rhs) =
     (case RawMemory_move_assign w (m_data this) (m_data rhs) of
        (w1, d, rd) \<Rightarrow>
          (w1, \<lparr>m_data = d, m_size = m_size rhs\<rparr>, Other \<lparr>m_data = rd, m_size = 0\<rparr>))"

text \<open>
  The last two statements of \<^verbatim>\<open>CopyOrMoveData\<close> and of \<^verbatim>\<open>CopyOrMovePartData\<close>:
  \<^verbatim>\<open>data_.Swap(new_data); std::destroy_n(new_data.GetAddress(), size_);\<close>
\<close>

definition swap_and_destroy ::
  "'a world \<Rightarrow> 'a Vector \<Rightarrow> 'a RawMemory
     \<Rightarrow> ('a, 'a Vector \<times> 'a RawMemory, 'a Vector \<times> 'a RawMemory) outcome" where
  "swap_and_destroy w v new_data =
     (case RawMemory_Swap (m_data v) new_data of
        (d, nd) \<Rightarrow>
          Returned w (v\<lparr>m_data := d\<rparr>, nd\<lparr>m_buffer := destroy_n (m_buffer nd) 0 (m_size v)\<rparr>))"

text \<open>
  \<^verbatim>\<open>void CopyOrMoveData(RawMemory<T>&& new_data)\<close>: the container and the buffer
  the caller passed, both as they are when the call returns or throws.
\<close>

definition CopyOrMoveData ::
  "'a elem \<Rightarrow> 'a world \<Rightarrow> 'a Vector \<Rightarrow> 'a RawMemory
     \<Rightarrow> ('a, 'a Vector \<times> 'a RawMemory, 'a Vector \<times> 'a RawMemory) outcome" where
  "CopyOrMoveData E w v new_data =
     (if is_nothrow_move_constructible E \<or> \<not> is_copy_constructible E then
        (case uninitialized_move_n E (clock w) (slots_of v) 0 (m_size v) (m_buffer new_data) 0 of
           Ok k (src, dst) \<Rightarrow>
             swap_and_destroy (w\<lparr>clock := k\<rparr>) (with_slots v src) (new_data\<lparr>m_buffer := dst\<rparr>)
         | Exn k (src, dst) \<Rightarrow>
             Threw (w\<lparr>clock := k\<rparr>) (with_slots v src, new_data\<lparr>m_buffer := dst\<rparr>))
      else
        (case uninitialized_copy_n E (clock w) (slots_of v) 0 (m_size v) (m_buffer new_data) 0 of
           Ok k dst \<Rightarrow> swap_and_destroy (w\<lparr>clock := k\<rparr>) v (new_data\<lparr>m_buffer := dst\<rparr>)
         | Exn k dst \<Rightarrow> Threw (w\<lparr>clock := k\<rparr>) (v, new_data\<lparr>m_buffer := dst\<rparr>)))"

text \<open>\<^verbatim>\<open>void CopyOrMovePartData(RawMemory<T>&& new_data, iterator pos)\<close>\<close>

definition CopyOrMovePartData ::
  "'a elem \<Rightarrow> 'a world \<Rightarrow> 'a Vector \<Rightarrow> 'a RawMemory \<Rightarrow> nat
     \<Rightarrow> ('a, 'a Vector \<times> 'a RawMemory, 'a Vector \<times> 'a RawMemory) outcome" where
  "CopyOrMovePartData E w v new_data pos =
     (if is_nothrow_move_constructible E \<or> \<not> is_copy_constructible E then
        (case uninitialized_move E (clock w) (slots_of v) (begin_pos v) pos (m_buffer new_data) 0 of
           Ok k (src, dst) \<Rightarrow>
             (case uninitialized_move E k src pos (end_pos v) dst ((pos - begin_pos v) + 1) of
                Ok k' (src', dst') \<Rightarrow>
                  swap_and_destroy (w\<lparr>clock := k'\<rparr>) (with_slots v src')
                    (new_data\<lparr>m_buffer := dst'\<rparr>)
              | Exn k' (src', dst') \<Rightarrow>
                  Threw (w\<lparr>clock := k'\<rparr>) (with_slots v src', new_data\<lparr>m_buffer := dst'\<rparr>))
         | Exn k (src, dst) \<Rightarrow>
             Threw (w\<lparr>clock := k\<rparr>) (with_slots v src, new_data\<lparr>m_buffer := dst\<rparr>))
      else
        (case uninitialized_copy E (clock w) (slots_of v) (begin_pos v) pos (m_buffer new_data) 0 of
           Ok k dst \<Rightarrow>
             (case uninitialized_copy E k (slots_of v) pos (end_pos v) dst
                     ((pos - begin_pos v) + 1) of
                Ok k' dst' \<Rightarrow> swap_and_destroy (w\<lparr>clock := k'\<rparr>) v (new_data\<lparr>m_buffer := dst'\<rparr>)
              | Exn k' dst' \<Rightarrow> Threw (w\<lparr>clock := k'\<rparr>) (v, new_data\<lparr>m_buffer := dst'\<rparr>))
         | Exn k dst \<Rightarrow> Threw (w\<lparr>clock := k\<rparr>) (v, new_data\<lparr>m_buffer := dst\<rparr>)))"

text \<open>
  \<^verbatim>\<open>void Reserve(size_t new_capacity)\<close>. The local \<^verbatim>\<open>new_data\<close> is destroyed when
  the function is left, by return or by exception. When the block is shorter than
  the \<^verbatim>\<open>size_\<close> elements to transfer, the transfer runs past its end.
\<close>

definition Reserve ::
  "'a elem \<Rightarrow> 'a world \<Rightarrow> 'a Vector \<Rightarrow> nat \<Rightarrow> ('a, 'a Vector, 'a Vector) outcome" where
  "Reserve E w v new_capacity =
     (if new_capacity \<le> m_capacity (m_data v) then Returned w v
      else
        (case RawMemory_new E w new_capacity of
           Returned w1 new_data \<Rightarrow>
             (if length (m_buffer new_data) < m_size v then Undefined
              else
                (case CopyOrMoveData E w1 v new_data of
                   Returned w2 (v', nd) \<Rightarrow> Returned (RawMemory_dtor w2 nd) v'
                 | Threw w2 (v', nd) \<Rightarrow> Threw (RawMemory_dtor w2 nd) v'
                 | Aborted \<Rightarrow> Aborted
                 | Undefined \<Rightarrow> Undefined))
         | Threw w1 u \<Rightarrow> Threw w1 v
         | Aborted \<Rightarrow> Aborted
         | Undefined \<Rightarrow> Undefined))"

text \<open>
  \<^verbatim>\<open>void Resize(size_t new_size)\<close>. When the buffer that \<^verbatim>\<open>Reserve\<close> leaves is
  shorter than \<open>new_size\<close>, the construction of the new elements runs past its end.
\<close>

definition Resize ::
  "'a elem \<Rightarrow> 'a world \<Rightarrow> 'a Vector \<Rightarrow> nat \<Rightarrow> ('a, 'a Vector, 'a Vector) outcome" where
  "Resize E w v new_size =
     (if new_size = m_size v then Returned w v
      else if new_size < m_size v then
        Returned w
          ((with_slots v (destroy_n (slots_of v) new_size (m_size v - new_size)))
             \<lparr>m_size := new_size\<rparr>)
      else
        (case Reserve E w v new_size of
           Returned w1 v1 \<Rightarrow>
             (if length (slots_of v1) < new_size then Undefined
              else
                (case uninitialized_value_construct_n E (clock w1) (slots_of v1) (m_size v1)
                        (new_size - m_size v1) of
                   Ok k buf \<Rightarrow>
                     Returned (w1\<lparr>clock := k\<rparr>) ((with_slots v1 buf)\<lparr>m_size := new_size\<rparr>)
                 | Exn k buf \<Rightarrow> Threw (w1\<lparr>clock := k\<rparr>) (with_slots v1 buf)))
         | Threw w1 v1 \<Rightarrow> Threw w1 v1
         | Aborted \<Rightarrow> Aborted
         | Undefined \<Rightarrow> Undefined))"

text \<open>
  \<^verbatim>\<open>return data_[size_ - 1];\<close> of \<^verbatim>\<open>EmplaceBack\<close>: a reference is the position
  of the slot. For \<^verbatim>\<open>size_ == 0\<close> the index wraps to the largest \<^verbatim>\<open>size_t\<close>, which
  no capacity exceeds, and the assert of \<^verbatim>\<open>RawMemory::operator[]\<close> fails.
\<close>

definition EmplaceBack_return ::
  "'a world \<Rightarrow> 'a Vector \<Rightarrow> ('a, 'a Vector \<times> nat, 'a Vector) outcome" where
  "EmplaceBack_return w v =
     (if m_size v = 0 then Aborted
      else case RawMemory_at (m_data v) (m_size v - 1) of
             Some i \<Rightarrow> Returned w (v, i)
           | None \<Rightarrow> Aborted)"

text \<open>
  \<^verbatim>\<open>T& EmplaceBack(Args&&... args)\<close>; \<open>x\<close> is the value that \<^verbatim>\<open>T(args...)\<close>
  constructs.
\<close>

definition EmplaceBack ::
  "'a elem \<Rightarrow> 'a world \<Rightarrow> 'a Vector \<Rightarrow> 'a \<Rightarrow> ('a, 'a Vector \<times> nat, 'a Vector) outcome" where
  "EmplaceBack E w v x =
     (if m_size v = Capacity v then
        (case RawMemory_live E w (if m_size v = 0 then 1 else m_size v * 2) of
           Returned w1 new_data \<Rightarrow>
             (if throws E (clock w1) then Threw (RawMemory_dtor (tick w1) new_data) v
              else
                (case CopyOrMoveData E (tick w1) v
                        (new_data\<lparr>m_buffer := (m_buffer new_data)[m_size v := Some x]\<rparr>) of
                   Returned w2 (v', nd) \<Rightarrow>
                     EmplaceBack_return (RawMemory_dtor w2 nd) (v'\<lparr>m_size := m_size v' + 1\<rparr>)
                 | Threw w2 (v', nd) \<Rightarrow> Threw (RawMemory_dtor w2 nd) v'
                 | Aborted \<Rightarrow> Aborted
                 | Undefined \<Rightarrow> Undefined))
         | Threw w1 u \<Rightarrow> Threw w1 v
         | Aborted \<Rightarrow> Aborted
         | Undefined \<Rightarrow> Undefined)
      else if m_size v < Capacity v then
        (if throws E (clock w) then Threw (tick w) v
         else
           EmplaceBack_return (tick w)
             ((with_slots v ((slots_of v)[m_size v := Some x]))\<lparr>m_size := m_size v + 1\<rparr>))
      else EmplaceBack_return w v)"

text \<open>\<^verbatim>\<open>void PushBack(S&& value)\<close>\<close>

definition PushBack ::
  "'a elem \<Rightarrow> 'a world \<Rightarrow> 'a Vector \<Rightarrow> 'a \<Rightarrow> ('a, 'a Vector, 'a Vector) outcome" where
  "PushBack E w v val =
     (case EmplaceBack E w v val of
        Returned w' (v', r) \<Rightarrow> Returned w' v'
      | Threw w' v' \<Rightarrow> Threw w' v'
      | Aborted \<Rightarrow> Aborted
      | Undefined \<Rightarrow> Undefined)"

text \<open>\<^verbatim>\<open>void PopBack() noexcept\<close>\<close>

definition PopBack :: "'a world \<Rightarrow> 'a Vector \<Rightarrow> ('a, 'a Vector, 'a Vector) outcome" where
  "PopBack w v =
     (if \<not> m_size v > 0 then Aborted
      else Returned w
             ((with_slots v (destroy_n (slots_of v) (m_size v - 1) 1))
                \<lparr>m_size := m_size v - 1\<rparr>))"

text \<open>\<^verbatim>\<open>return &data_[shift_pos];\<close> of \<^verbatim>\<open>Emplace\<close>\<close>

definition Emplace_return ::
  "'a world \<Rightarrow> 'a Vector \<Rightarrow> nat \<Rightarrow> ('a, 'a Vector \<times> nat, 'a Vector) outcome" where
  "Emplace_return w v shift_pos =
     (case RawMemory_at (m_data v) shift_pos of
        Some i \<Rightarrow> Returned w (v, i)
      | None \<Rightarrow> Aborted)"

text \<open>
  \<^verbatim>\<open>iterator Emplace(const_iterator pos, Args&&... args)\<close>. The local \<^verbatim>\<open>temp\<close>
  of the middle case is destroyed when the function is left.
\<close>

definition Emplace ::
  "'a elem \<Rightarrow> 'a world \<Rightarrow> 'a Vector \<Rightarrow> nat \<Rightarrow> 'a
     \<Rightarrow> ('a, 'a Vector \<times> nat, 'a Vector) outcome" where
  "Emplace E w v pos x =
     (if \<not> (pos \<ge> begin_pos v \<and> pos \<le> end_pos v) then Aborted
      else
        let shift_pos = pos - begin_pos v in
        if m_size v = Capacity v then
          (case RawMemory_live E w (if m_size v = 0 then 1 else m_size v * 2) of
             Returned w1 new_data \<Rightarrow>
               (if throws E (clock w1) then Threw (RawMemory_dtor (tick w1) new_data) v
                else
                  (case CopyOrMovePartData E (tick w1) v
                          (new_data\<lparr>m_buffer := (m_buffer new_data)[shift_pos := Some x]\<rparr>) pos of
                     Returned w2 (v', nd) \<Rightarrow>
                       Emplace_return (RawMemory_dtor w2 nd) (v'\<lparr>m_size := m_size v' + 1\<rparr>)
                         shift_pos
                   | Threw w2 (v', nd) \<Rightarrow> Threw (RawMemory_dtor w2 nd) v'
                   | Aborted \<Rightarrow> Aborted
                   | Undefined \<Rightarrow> Undefined))
           | Threw w1 u \<Rightarrow> Threw w1 v
           | Aborted \<Rightarrow> Aborted
           | Undefined \<Rightarrow> Undefined)
        else if m_size v < Capacity v then
          (if pos = end_pos v then
             (if throws E (clock w) then Threw (tick w) v
              else
                Emplace_return (tick w)
                  ((with_slots v ((slots_of v)[m_size v := Some x]))\<lparr>m_size := m_size v + 1\<rparr>)
                  shift_pos)
           else if throws E (clock w) then Threw (tick w) v
           else
             (case uninitialized_move_n_within E (Suc (clock w)) (slots_of v)
                     (end_pos v - 1) 1 (end_pos v) of
                Ok k buf \<Rightarrow>
                  (case move_backward E k buf pos (end_pos v - 1) (end_pos v) of
                     Ok k' buf' \<Rightarrow>
                       (if throws E k' then Threw (w\<lparr>clock := Suc k'\<rparr>) (with_slots v buf')
                        else
                          Emplace_return (w\<lparr>clock := Suc k'\<rparr>)
                            ((with_slots v (buf'[pos := Some x]))\<lparr>m_size := m_size v + 1\<rparr>)
                            shift_pos)
                   | Exn k' buf' \<Rightarrow> Threw (w\<lparr>clock := k'\<rparr>) (with_slots v buf'))
              | Exn k buf \<Rightarrow> Threw (w\<lparr>clock := k\<rparr>) (with_slots v buf)))
        else Emplace_return w v shift_pos)"

text \<open>\<^verbatim>\<open>iterator Insert(const_iterator pos, S&& value)\<close>\<close>

definition Insert ::
  "'a elem \<Rightarrow> 'a world \<Rightarrow> 'a Vector \<Rightarrow> nat \<Rightarrow> 'a
     \<Rightarrow> ('a, 'a Vector \<times> nat, 'a Vector) outcome" where
  "Insert E w v pos val = Emplace E w v pos val"

text \<open>
  \<^verbatim>\<open>iterator Erase(const_iterator pos)\<close>. The source does not check \<^verbatim>\<open>pos\<close>, and
  every statement runs as written whatever it is: for \<^verbatim>\<open>pos\<close> at or beyond
  \<^verbatim>\<open>end()\<close> nothing is moved, the last element (if there is one) is destroyed and
  \<^verbatim>\<open>size_\<close> is decremented as a \<^verbatim>\<open>size_t\<close>. On an empty container the slot that
  \<^verbatim>\<open>std::destroy_n\<close> is given lies before the buffer and is not among the slots
  of the model.
\<close>

definition Erase ::
  "'a elem \<Rightarrow> 'a world \<Rightarrow> 'a Vector \<Rightarrow> nat \<Rightarrow> ('a, 'a Vector \<times> nat, 'a Vector) outcome" where
  "Erase E w v pos =
     (case std_move E (clock w) (slots_of v) (pos + 1) (end_pos v) pos of
        Ok k buf \<Rightarrow>
          (let v1 = with_slots v (if m_size v = 0 then buf else destroy_n buf (m_size v - 1) 1);
               v2 = v1\<lparr>m_size := size_t_dec (m_size v1)\<rparr>
           in if m_size v2 = 0 then Returned (w\<lparr>clock := k\<rparr>) (v2, end_pos v2)
              else Returned (w\<lparr>clock := k\<rparr>) (v2, pos))
      | Exn k buf \<Rightarrow> Threw (w\<lparr>clock := k\<rparr>) (with_slots v buf))"

section \<open>Invariants and the abstract view\<close>

text \<open>The container-level invariant \<open>0 \<le> size \<le> capacity\<close>.\<close>

definition size_le_capacity :: "'a Vector \<Rightarrow> bool" where
  "size_le_capacity v = (0 \<le> Size v \<and> Size v \<le> Capacity v)"

text \<open>
  The representation invariant: the buffer has \<open>capacity\<close> slots, the slots
  \<open>[0, size)\<close> hold live objects and the slots \<open>[size, capacity)\<close> hold none.
\<close>

definition Vector_inv :: "'a Vector \<Rightarrow> bool" where
  "Vector_inv v =
     (length (slots_of v) = Capacity v \<and> Size v \<le> Capacity v \<and>
      list_all (\<lambda>s. s \<noteq> None) (take (Size v) (slots_of v)) \<and>
      list_all (\<lambda>s. s = None) (drop (Size v) (slots_of v)))"

text \<open>The sequence of element values of a container.\<close>

definition elements :: "'a Vector \<Rightarrow> 'a list" where
  "elements v = map the (take (Size v) (slots_of v))"

text \<open>
  An operation stays inside an invariant \<open>I\<close> when it returns or throws (it
  neither aborts nor leaves its domain) and every container it leaves behind,
  on either path, satisfies \<open>I\<close>. \<open>fr\<close> and \<open>fe\<close> pick the containers out of
  what the operation returns and of what it leaves when it throws.
\<close>

definition stays ::
  "('a Vector \<Rightarrow> bool) \<Rightarrow> ('r \<Rightarrow> 'a Vector list) \<Rightarrow> ('e \<Rightarrow> 'a Vector list)
     \<Rightarrow> ('a, 'r, 'e) outcome \<Rightarrow> bool" where
  "stays I fr fe oc =
     (case oc of
        Returned w r \<Rightarrow> list_all I (fr r)
      | Threw w e \<Rightarrow> list_all I (fe e)
      | Aborted \<Rightarrow> False
      | Undefined \<Rightarrow> False)"

text \<open>The containers an assignment argument stands for.\<close>

fun others :: "'a other \<Rightarrow> 'a Vector list" where
  "others This = []"
| "others (Other u) = [u]"

section \<open>Concrete element types and containers\<close>

text \<open>
  \<^verbatim>\<open>int\<close>: four bytes, nothing throws, a moved-from \<^verbatim>\<open>int\<close> keeps its value,
  \<^verbatim>\<open>int()\<close> is 0. The other two element types are four bytes wide as well.
\<close>

definition int_elem :: "int elem" where
  "int_elem = \<lparr>is_nothrow_move_constructible = True, is_copy_constructible = True,
               size_of = 4, value_init = 0, moved_from = (\<lambda>x. x), throws = (\<lambda>k. False)\<rparr>"

text \<open>
  A copyable type whose move constructor may throw, so that the transfer copies;
  its \<open>n\<close>-th throwing-capable operation throws. A moved-from object has value \<open>-1\<close>.
\<close>

definition throwing_elem :: "nat \<Rightarrow> int elem" where
  "throwing_elem n = \<lparr>is_nothrow_move_constructible = False, is_copy_constructible = True,
               size_of = 4, value_init = 0, moved_from = (\<lambda>x. - 1), throws = (\<lambda>k. k = n)\<rparr>"

text \<open>A type with a non-throwing move constructor that empties its source.\<close>

definition movable_elem :: "int elem" where
  "movable_elem = \<lparr>is_nothrow_move_constructible = True, is_copy_constructible = True,
               size_of = 4, value_init = 0, moved_from = (\<lambda>x. - 1), throws = (\<lambda>k. False)\<rparr>"

definition world0 :: "int world" where
  "world0 = \<lparr>clock = 0, leaked = []\<rparr>"

text \<open>The container \<open>[7, 8]\<close> with capacity 2, and \<open>[7, 8, 9]\<close> with capacity 4.\<close>

definition vec78 :: "int Vector" where
  "vec78 = \<lparr>m_data = \<lparr>m_buffer = [Some 7, Some 8], m_capacity = 2\<rparr>, m_size = 2\<rparr>"

definition vec789 :: "int Vector" where
  "vec789 = \<lparr>m_data = \<lparr>m_buffer = [Some 7, Some 8, Some 9, None], m_capacity = 4\<rparr>,
             m_size = 3\<rparr>"

section \<open>Facts about the standard algorithms and the transfer\<close>

lemma length_destroy_n [simp]: "length (destroy_n buf first n) = length buf"
  by (induction n arbitrary: buf first) auto

lemma nth_destroy_n:
  "i < length buf \<Longrightarrow>
   destroy_n buf first n ! i = (if first \<le> i \<and> i < first + n then None else buf ! i)"
  by (induction n arbitrary: buf first) (auto simp: nth_list_update)


lemma ucopy_Ok:
  "uninitialized_copy_n E k src first n dst d = Ok k' dst' \<Longrightarrow>
   k' = k + n \<and> length dst' = length dst \<and>
   (\<forall>j<n. d + j < length dst \<longrightarrow> dst' ! (d + j) = src ! (first + j)) \<and>
   (\<forall>i<length dst. i < d \<or> d + n \<le> i \<longrightarrow> dst' ! i = dst ! i)"
proof (induction n arbitrary: k first dst d)
  case 0
  then show ?case by auto
next
  case (Suc n)
  from Suc.prems have nt: "\<not> throws E k" by (auto split: if_splits)
  with Suc.prems have rec: "uninitialized_copy_n E (Suc k) src (Suc first) n
      (dst[d := src ! first]) (Suc d) = Ok k' dst'"
    by (auto split: res.splits)
  note IH = Suc.IH[OF rec]
  have "dst' ! (d + j) = src ! (first + j)" if "j < Suc n" "d + j < length dst" for j
  proof (cases j)
    case 0
    with IH that show ?thesis by simp
  next
    case (Suc j')
    with IH that show ?thesis by simp
  qed
  moreover have "dst' ! i = dst ! i" if "i < length dst" "i < d \<or> d + Suc n \<le> i" for i
    using IH that by auto
  ultimately show ?case using IH by simp
qed


lemma ucopy_Exn:
  "uninitialized_copy_n E k src first n dst d = Exn k' dst' \<Longrightarrow>
   k < k' \<and> k' \<le> k + n \<and> throws E (k' - 1) \<and> length dst' = length dst \<and>
   (\<forall>i<length dst. dst' ! i = dst ! i \<or> (d \<le> i \<and> i < d + n \<and> dst' ! i = None))"
proof (induction n arbitrary: k first dst d dst')
  case 0
  then show ?case by auto
next
  case (Suc n)
  show ?case
  proof (cases "throws E k")
    case True
    with Suc.prems show ?thesis by auto
  next
    case False
    with Suc.prems obtain b where rec: "uninitialized_copy_n E (Suc k) src (Suc first) n
      (dst[d := src ! first]) (Suc d) = Exn k' b" and b: "dst' = b[d := None]"
      by (auto split: res.splits)
    note IH = Suc.IH[OF rec]
    have "dst' ! i = dst ! i \<or> (d \<le> i \<and> i < d + Suc n \<and> dst' ! i = None)"
      if "i < length dst" for i
    proof (cases "i = d")
      case True
      with b IH that show ?thesis by simp
    next
      case False
      from IH that have "b ! i = dst[d := src ! first] ! i \<or>
          (Suc d \<le> i \<and> i < Suc d + n \<and> b ! i = None)"
        by simp
      with False have "b ! i = dst ! i \<or> (Suc d \<le> i \<and> i < Suc d + n \<and> b ! i = None)"
        by simp
      with False b show ?thesis by auto
    qed
    moreover from IH b have "k < k'" "k' \<le> k + Suc n" "throws E (k' - 1)"
      "length dst' = length dst" by simp_all
    ultimately show ?thesis by blast
  qed
qed

lemma copy_n_Ok:
  "copy_n E k src first n dst d = Ok k' dst' \<Longrightarrow>
   k' = k + n \<and> length dst' = length dst \<and>
   (\<forall>j<n. d + j < length dst \<longrightarrow> dst' ! (d + j) = src ! (first + j)) \<and>
   (\<forall>i<length dst. i < d \<or> d + n \<le> i \<longrightarrow> dst' ! i = dst ! i)"
proof (induction n arbitrary: k first dst d)
  case 0
  then show ?case by auto
next
  case (Suc n)
  from Suc.prems have nt: "\<not> throws E k" by (auto split: if_splits)
  with Suc.prems have rec: "copy_n E (Suc k) src (Suc first) n
      (dst[d := src ! first]) (Suc d) = Ok k' dst'"
    by (auto split: res.splits)
  note IH = Suc.IH[OF rec]
  have "dst' ! (d + j) = src ! (first + j)" if "j < Suc n" "d + j < length dst" for j
  proof (cases j)
    case 0
    with IH that show ?thesis by simp
  next
    case (Suc j')
    with IH that show ?thesis by simp
  qed
  moreover have "dst' ! i = dst ! i" if "i < length dst" "i < d \<or> d + Suc n \<le> i" for i
    using IH that by auto
  ultimately show ?case using IH by simp
qed

lemma umove_Ok:
  "uninitialized_move_n E k src first n dst d = Ok k' (src', dst') \<Longrightarrow>
   length src' = length src \<and> length dst' = length dst \<and>
   (\<forall>j<n. d + j < length dst \<longrightarrow> dst' ! (d + j) = src ! (first + j)) \<and>
   (\<forall>i<length dst. i < d \<or> d + n \<le> i \<longrightarrow> dst' ! i = dst ! i) \<and>
   (\<forall>j<n. first + j < length src \<longrightarrow>
      src' ! (first + j) = map_option (moved_from E) (src ! (first + j))) \<and>
   (\<forall>i<length src. i < first \<or> first + n \<le> i \<longrightarrow> src' ! i = src ! i)"
proof (induction n arbitrary: k first src dst d)
  case 0
  then show ?case by auto
next
  case (Suc n)
  let ?src1 = "src[first := map_option (moved_from E) (src ! first)]"
  from Suc.prems have rec: "uninitialized_move_n E (move_ctor_clock E k) ?src1 (Suc first) n
      (dst[d := src ! first]) (Suc d) = Ok k' (src', dst')"
    by (auto split: res.splits if_splits)
  note IH = Suc.IH[OF rec]
  have "dst' ! (d + j) = src ! (first + j)" if "j < Suc n" "d + j < length dst" for j
  proof (cases j)
    case 0
    with IH that show ?thesis by simp
  next
    case (Suc j')
    with IH that show ?thesis by simp
  qed
  moreover have "dst' ! i = dst ! i" if "i < length dst" "i < d \<or> d + Suc n \<le> i" for i
    using IH that by auto
  moreover have "src' ! (first + j) = map_option (moved_from E) (src ! (first + j))"
    if "j < Suc n" "first + j < length src" for j
  proof (cases j)
    case 0
    with IH that show ?thesis by simp
  next
    case (Suc j')
    with IH that show ?thesis by simp
  qed
  moreover have "src' ! i = src ! i" if "i < length src" "i < first \<or> first + Suc n \<le> i" for i
    using IH that by auto
  ultimately show ?case using IH by simp
qed

lemma move_n_Ok:
  "move_n E k buf (Suc d) n d = Ok k' buf' \<Longrightarrow> Suc d + n \<le> length buf \<Longrightarrow>
   k' = k + n \<and> length buf' = length buf \<and>
   (\<forall>j<n. buf' ! (d + j) = buf ! (Suc d + j)) \<and>
   (0 < n \<longrightarrow> buf' ! (d + n) = map_option (moved_from E) (buf ! (d + n))) \<and>
   (\<forall>i<length buf. i < d \<or> d + n < i \<longrightarrow> buf' ! i = buf ! i) \<and>
   (n = 0 \<longrightarrow> buf' = buf)"
proof (induction n arbitrary: k buf d)
  case 0
  then show ?case by auto
next
  case (Suc n)
  let ?buf1 = "buf[d := buf ! Suc d, Suc d := map_option (moved_from E) (buf ! Suc d)]"
  from Suc.prems have rec: "move_n E (Suc k) ?buf1 (Suc (Suc d)) n (Suc d) = Ok k' buf'"
    by (auto split: if_splits)
  from Suc.prems have len: "Suc (Suc d) + n \<le> length ?buf1" by simp
  note IH = Suc.IH[OF rec len]
  have "buf' ! (d + j) = buf ! (Suc d + j)" if "j < Suc n" for j
  proof (cases j)
    case 0
    with IH Suc.prems(2) show ?thesis by simp
  next
    case (Suc j')
    with IH that Suc.prems(2) show ?thesis by simp
  qed
  moreover have "buf' ! (d + Suc n) = map_option (moved_from E) (buf ! (d + Suc n))"
  proof (cases n)
    case 0
    with IH Suc.prems(2) show ?thesis by simp
  next
    case (Suc n')
    with IH Suc.prems(2) show ?thesis by simp
  qed
  moreover have "buf' ! i = buf ! i" if "i < length buf" "i < d \<or> d + Suc n < i" for i
    using IH that by auto
  ultimately show ?case using IH by simp
qed

lemma move_backward_n_Ok:
  "move_backward_n E k buf first n (Suc (first + n)) = Ok k' buf' \<Longrightarrow>
   first + n < length buf \<Longrightarrow>
   k' = k + n \<and> length buf' = length buf \<and>
   (\<forall>j<n. buf' ! (Suc (first + j)) = buf ! (first + j)) \<and>
   (0 < n \<longrightarrow> buf' ! first = map_option (moved_from E) (buf ! first)) \<and>
   (\<forall>i<length buf. i < first \<or> first + n < i \<longrightarrow> buf' ! i = buf ! i) \<and>
   (n = 0 \<longrightarrow> buf' = buf)"
proof (induction n arbitrary: k buf)
  case 0
  then show ?case by auto
next
  case (Suc n)
  let ?buf1 = "buf[Suc (first + n) := buf ! (first + n),
                   first + n := map_option (moved_from E) (buf ! (first + n))]"
  from Suc.prems have rec: "move_backward_n E (Suc k) ?buf1 first n (Suc (first + n)) = Ok k' buf'"
    by (auto split: if_splits)
  from Suc.prems have len: "first + n < length ?buf1" by simp
  note IH = Suc.IH[OF rec len]
  have "buf' ! (Suc (first + j)) = buf ! (first + j)" if "j < Suc n" for j
  proof (cases "j = n")
    case True
    with IH Suc.prems(2) show ?thesis by simp
  next
    case False
    with that have "j < n" by simp
    with IH Suc.prems(2) show ?thesis by simp
  qed
  moreover have "buf' ! first = map_option (moved_from E) (buf ! first)"
  proof (cases n)
    case 0
    with IH Suc.prems(2) show ?thesis by simp
  next
    case (Suc n')
    with IH Suc.prems(2) show ?thesis by simp
  qed
  moreover have "buf' ! i = buf ! i" if "i < length buf" "i < first \<or> first + Suc n < i" for i
    using IH that by auto
  ultimately show ?case using IH by simp
qed


lemma Vector_inv_nth:
  "Vector_inv v \<longleftrightarrow>
     length (slots_of v) = Capacity v \<and> Size v \<le> Capacity v \<and>
     (\<forall>i<Size v. slots_of v ! i \<noteq> None) \<and>
     (\<forall>i. Size v \<le> i \<and> i < Capacity v \<longrightarrow> slots_of v ! i = None)"
proof -
  have "list_all (\<lambda>s. s = None) (drop (Size v) (slots_of v)) \<longleftrightarrow>
        (\<forall>i. Size v \<le> i \<and> i < Capacity v \<longrightarrow> slots_of v ! i = None)"
    if "length (slots_of v) = Capacity v" "Size v \<le> Capacity v"
  proof
    assume a: "list_all (\<lambda>s. s = None) (drop (Size v) (slots_of v))"
    show "\<forall>i. Size v \<le> i \<and> i < Capacity v \<longrightarrow> slots_of v ! i = None"
    proof (intro allI impI)
      fix i assume "Size v \<le> i \<and> i < Capacity v"
      then have i: "Size v \<le> i" "i < Capacity v" by simp_all
      then have "i - Size v < length (drop (Size v) (slots_of v))" using that by simp
      with a have "drop (Size v) (slots_of v) ! (i - Size v) = None"
        unfolding list_all_length by blast
      with i that show "slots_of v ! i = None" by simp
    qed
  next
    assume "\<forall>i. Size v \<le> i \<and> i < Capacity v \<longrightarrow> slots_of v ! i = None"
    with that show "list_all (\<lambda>s. s = None) (drop (Size v) (slots_of v))"
      by (simp add: list_all_length)
  qed
  then show ?thesis
    unfolding Vector_inv_def by (auto simp: list_all_length)
qed

lemma length_elements: "Size v \<le> length (slots_of v) \<Longrightarrow> length (elements v) = Size v"
  by (simp add: elements_def)

lemma nth_elements:
  "Size v \<le> length (slots_of v) \<Longrightarrow> i < Size v \<Longrightarrow> elements v ! i = the (slots_of v ! i)"
  by (simp add: elements_def)

lemma CopyOrMoveData_Returned:
  assumes run: "CopyOrMoveData E w v nd = Returned w' (v', nd')"
    and len: "length (slots_of v) = Capacity v" "Size v \<le> Capacity v"
    and nlen: "length (m_buffer nd) = m_capacity nd" "Size v \<le> m_capacity nd"
  shows "Size v' = Size v" "Capacity v' = m_capacity nd" "length (slots_of v') = m_capacity nd"
    "\<forall>i<Size v. slots_of v' ! i = slots_of v ! i"
    "\<forall>i. Size v \<le> i \<and> i < m_capacity nd \<longrightarrow> slots_of v' ! i = m_buffer nd ! i"
    "m_capacity nd' = Capacity v" "length (m_buffer nd') = Capacity v"
    "\<forall>i<Capacity v. m_buffer nd' ! i = None \<or> (Size v \<le> i \<and> m_buffer nd' ! i = slots_of v ! i)"
proof -
  have "Size v' = Size v \<and> Capacity v' = m_capacity nd \<and> length (slots_of v') = m_capacity nd \<and>
    (\<forall>i<Size v. slots_of v' ! i = slots_of v ! i) \<and>
    (\<forall>i. Size v \<le> i \<and> i < m_capacity nd \<longrightarrow> slots_of v' ! i = m_buffer nd ! i) \<and>
    m_capacity nd' = Capacity v \<and> length (m_buffer nd') = Capacity v \<and>
    (\<forall>i<Capacity v. m_buffer nd' ! i = None \<or> (Size v \<le> i \<and> m_buffer nd' ! i = slots_of v ! i))"
  proof (cases "is_nothrow_move_constructible E \<or> \<not> is_copy_constructible E")
    case True
    with run obtain k src dst where
      mv: "uninitialized_move_n E (clock w) (slots_of v) 0 (m_size v) (m_buffer nd) 0 = Ok k (src, dst)"
      and sd: "swap_and_destroy (w\<lparr>clock := k\<rparr>) (with_slots v src) (nd\<lparr>m_buffer := dst\<rparr>)
                = Returned w' (v', nd')"
      unfolding CopyOrMoveData_def by (auto split: res.splits prod.splits)
    note M = umove_Ok[OF mv]
    from sd have v': "v' = (with_slots v src)\<lparr>m_data := nd\<lparr>m_buffer := dst\<rparr>\<rparr>"
      and nd': "nd' = (m_data (with_slots v src))\<lparr>m_buffer := destroy_n src 0 (m_size v)\<rparr>"
      unfolding swap_and_destroy_def RawMemory_Swap_def with_slots_def by auto
    have "\<forall>i<Size v. dst ! i = slots_of v ! i"
      using M nlen len by (auto simp: Size_def)
    moreover have "\<forall>i. Size v \<le> i \<and> i < m_capacity nd \<longrightarrow> dst ! i = m_buffer nd ! i"
      using M nlen len by (auto simp: Size_def)
    moreover have "\<forall>i<Capacity v. destroy_n src 0 (m_size v) ! i = None \<or>
         (Size v \<le> i \<and> destroy_n src 0 (m_size v) ! i = slots_of v ! i)"
      using M len by (auto simp: Size_def nth_destroy_n)
    ultimately show ?thesis
      using M len nlen unfolding v' nd'
      by (simp add: Size_def Capacity_def slots_of_def with_slots_def)
  next
    case False
    with run obtain k dst where
      cp: "uninitialized_copy_n E (clock w) (slots_of v) 0 (m_size v) (m_buffer nd) 0 = Ok k dst"
      and sd: "swap_and_destroy (w\<lparr>clock := k\<rparr>) v (nd\<lparr>m_buffer := dst\<rparr>) = Returned w' (v', nd')"
      unfolding CopyOrMoveData_def by (auto split: res.splits prod.splits)
    note M = ucopy_Ok[OF cp]
    from sd have v': "v' = v\<lparr>m_data := nd\<lparr>m_buffer := dst\<rparr>\<rparr>"
      and nd': "nd' = (m_data v)\<lparr>m_buffer := destroy_n (m_buffer (m_data v)) 0 (m_size v)\<rparr>"
      unfolding swap_and_destroy_def RawMemory_Swap_def by auto
    have "\<forall>i<Size v. dst ! i = slots_of v ! i"
      using M nlen len by (auto simp: Size_def)
    moreover have "\<forall>i. Size v \<le> i \<and> i < m_capacity nd \<longrightarrow> dst ! i = m_buffer nd ! i"
      using M nlen len by (auto simp: Size_def)
    moreover have "\<forall>i<Capacity v. destroy_n (slots_of v) 0 (m_size v) ! i = None \<or>
         (Size v \<le> i \<and> destroy_n (slots_of v) 0 (m_size v) ! i = slots_of v ! i)"
      using len by (auto simp: Size_def nth_destroy_n)
    ultimately show ?thesis
      using M len nlen unfolding v' nd'
      by (simp add: Size_def Capacity_def slots_of_def)
  qed
  then show "Size v' = Size v" "Capacity v' = m_capacity nd" "length (slots_of v') = m_capacity nd"
    "\<forall>i<Size v. slots_of v' ! i = slots_of v ! i"
    "\<forall>i. Size v \<le> i \<and> i < m_capacity nd \<longrightarrow> slots_of v' ! i = m_buffer nd ! i"
    "m_capacity nd' = Capacity v" "length (m_buffer nd') = Capacity v"
    "\<forall>i<Capacity v. m_buffer nd' ! i = None \<or> (Size v \<le> i \<and> m_buffer nd' ! i = slots_of v ! i)"
    by blast+
qed



lemma ucopy_nothrow:
  "\<forall>j. \<not> throws E j \<Longrightarrow> \<exists>k' b. uninitialized_copy_n E k src first n dst d = Ok k' b"
proof (induction n arbitrary: k first dst d)
  case 0
  then show ?case by simp
next
  case (Suc n)
  from Suc.IH[OF Suc.prems, of "Suc k" "Suc first" "dst[d := src ! first]" "Suc d"]
  show ?case using Suc.prems by auto
qed

lemma umove_nothrow:
  "\<forall>j. \<not> throws E j \<Longrightarrow> \<exists>k' s b. uninitialized_move_n E k src first n dst d = Ok k' (s, b)"
proof (induction n arbitrary: k first src dst d)
  case 0
  then show ?case by simp
next
  case (Suc n)
  from Suc.IH[OF Suc.prems, of "move_ctor_clock E k"
      "src[first := map_option (moved_from E) (src ! first)]" "Suc first"
      "dst[d := src ! first]" "Suc d"]
  show ?case using Suc.prems by (auto simp: move_ctor_throws_def)
qed

lemma copy_n_nothrow:
  "\<forall>j. \<not> throws E j \<Longrightarrow> \<exists>k' b. copy_n E k src first n dst d = Ok k' b"
  by (induction n arbitrary: k first dst d) auto

lemma move_n_nothrow:
  "\<forall>j. \<not> throws E j \<Longrightarrow> \<exists>k' b. move_n E k buf first n d = Ok k' b"
  by (induction n arbitrary: k buf first d) auto

lemma move_backward_n_nothrow:
  "\<forall>j. \<not> throws E j \<Longrightarrow> \<exists>k' b. move_backward_n E k buf first n d = Ok k' b"
  by (induction n arbitrary: k buf d) auto

lemma RawMemory_live_nothrow:
  "\<forall>j. \<not> throws E j \<Longrightarrow> \<exists>w'. RawMemory_live E w n = Returned w' \<lparr>m_buffer = replicate n None, m_capacity = n\<rparr>"
  by (simp add: RawMemory_live_def Allocate_def)

lemma RawMemory_live_Returned:
  "RawMemory_live E w n = Returned w' nd \<Longrightarrow>
   nd = \<lparr>m_buffer = replicate n None, m_capacity = n\<rparr> \<and> leaked w' = leaked w"
  by (auto simp: RawMemory_live_def Allocate_def tick_def split: if_splits)

lemma RawMemory_live_cases:
  "(\<exists>w'. RawMemory_live E w n = Returned w' \<lparr>m_buffer = replicate n None, m_capacity = n\<rparr>) \<or>
   (\<exists>w'. RawMemory_live E w n = Threw w' ())"
  by (simp add: RawMemory_live_def Allocate_def)

lemma CopyOrMoveData_nothrow:
  assumes "\<forall>j. \<not> throws E j"
  shows "\<exists>w' r. CopyOrMoveData E w v nd = Returned w' r"
proof (cases "is_nothrow_move_constructible E \<or> \<not> is_copy_constructible E")
  case True
  from umove_nothrow[OF assms] obtain k s b where
    "uninitialized_move_n E (clock w) (slots_of v) 0 (m_size v) (m_buffer nd) 0 = Ok k (s, b)"
    by blast
  with True show ?thesis
    by (simp add: CopyOrMoveData_def swap_and_destroy_def RawMemory_Swap_def)
next
  case False
  from ucopy_nothrow[OF assms] obtain k b where
    "uninitialized_copy_n E (clock w) (slots_of v) 0 (m_size v) (m_buffer nd) 0 = Ok k b"
    by blast
  with False show ?thesis
    by (simp add: CopyOrMoveData_def swap_and_destroy_def RawMemory_Swap_def)
qed

lemma CopyOrMoveData_cases:
  "(\<exists>w' v' nd'. CopyOrMoveData E w v nd = Returned w' (v', nd')) \<or>
   (\<exists>w' v' nd'. CopyOrMoveData E w v nd = Threw w' (v', nd'))"
  by (auto simp: CopyOrMoveData_def swap_and_destroy_def RawMemory_Swap_def
           split: res.splits prod.splits)

lemma block_slots_fits: "request_fits E n \<Longrightarrow> block_slots E n = n"
  by (simp add: block_slots_def request_fits_def)

lemma RawMemory_new_fits:
  "request_fits E n \<Longrightarrow> RawMemory_new E w n = RawMemory_live E w n"
  by (simp add: RawMemory_new_def RawMemory_live_def Allocate_def block_slots_fits)

lemma RawMemory_new_cases:
  "(\<exists>w'. RawMemory_new E w n =
          Returned w' \<lparr>m_buffer = replicate (block_slots E n) None, m_capacity = n\<rparr> \<and>
          leaked w' = leaked w) \<or>
   (\<exists>w'. RawMemory_new E w n = Threw w' () \<and> leaked w' = leaked w)"
  by (simp add: RawMemory_new_def Allocate_def tick_def block_slots_def)

text \<open>When the request fits and \<open>size \<le> capacity\<close>, the block is never too short.\<close>

lemma Reserve_fits:
  assumes fits: "request_fits E n" and le: "m_size v \<le> m_capacity (m_data v)"
    and gt: "m_capacity (m_data v) < n"
  shows "Reserve E w v n =
     (case RawMemory_live E w n of
        Returned w1 new_data \<Rightarrow>
          (case CopyOrMoveData E w1 v new_data of
             Returned w2 (v', nd) \<Rightarrow> Returned (RawMemory_dtor w2 nd) v'
           | Threw w2 (v', nd) \<Rightarrow> Threw (RawMemory_dtor w2 nd) v'
           | Aborted \<Rightarrow> Aborted
           | Undefined \<Rightarrow> Undefined)
      | Threw w1 u \<Rightarrow> Threw w1 v
      | Aborted \<Rightarrow> Aborted
      | Undefined \<Rightarrow> Undefined)"
proof -
  from RawMemory_live_cases[of E w n] show ?thesis
  proof (elim disjE exE)
    fix w1
    assume "RawMemory_live E w n = Returned w1 \<lparr>m_buffer = replicate n None, m_capacity = n\<rparr>"
    with gt le show ?thesis
      by (simp add: Reserve_def RawMemory_new_fits[OF fits])
  next
    fix w1
    assume "RawMemory_live E w n = Threw w1 ()"
    with gt show ?thesis
      by (simp add: Reserve_def RawMemory_new_fits[OF fits])
  qed
qed

lemma Reserve_Returned:
  assumes inv: "Vector_inv v" and gt: "Capacity v < new_capacity"
    and fits: "request_fits E new_capacity"
    and run: "Reserve E w v new_capacity = Returned w' v'"
  shows "Capacity v' = new_capacity" "Size v' = Size v"
    "\<forall>i<Size v. slots_of v' ! i = slots_of v ! i"
    "elements v' = elements v" "Vector_inv v'"
proof -
  from inv have len: "length (slots_of v) = Capacity v" "Size v \<le> Capacity v"
    and lv: "\<forall>i<Size v. slots_of v ! i \<noteq> None"
    by (simp_all add: Vector_inv_nth)
  from len gt have le: "m_size v \<le> m_capacity (m_data v)"
    and gt': "m_capacity (m_data v) < new_capacity"
    by (simp_all add: Size_def Capacity_def)
  from run obtain w1 nd w2 nd' where
    new: "RawMemory_live E w new_capacity = Returned w1 nd"
    and cm: "CopyOrMoveData E w1 v nd = Returned w2 (v', nd')"
    unfolding Reserve_fits[OF fits le gt'] by (auto split: outcome.splits prod.splits)
  from RawMemory_live_Returned[OF new]
  have nd: "nd = \<lparr>m_buffer = replicate new_capacity None, m_capacity = new_capacity\<rparr>" by simp
  have nlen: "length (m_buffer nd) = m_capacity nd" "Size v \<le> m_capacity nd"
    using nd len gt by simp_all
  note C = CopyOrMoveData_Returned[OF cm len nlen]
  show cap: "Capacity v' = new_capacity" using C(2) nd by simp
  show sz: "Size v' = Size v" by (rule C(1))
  show same: "\<forall>i<Size v. slots_of v' ! i = slots_of v ! i" by (rule C(4))
  have l': "length (slots_of v') = new_capacity" using C(3) nd by simp
  show "elements v' = elements v"
  proof (rule nth_equalityI)
    show "length (elements v') = length (elements v)"
      using sz l' len gt by (simp add: length_elements)
  next
    fix i assume "i < length (elements v')"
    then have i: "i < Size v" using sz l' len gt by (simp add: length_elements)
    then show "elements v' ! i = elements v ! i"
      using same sz l' len gt by (simp add: nth_elements)
  qed
  have "\<forall>i. Size v' \<le> i \<and> i < Capacity v' \<longrightarrow> slots_of v' ! i = None"
    using C(5) nd sz cap by simp
  then show "Vector_inv v'"
    using cap sz l' same lv len gt by (simp add: Vector_inv_nth)
qed


subsection \<open>What \<^verbatim>\<open>Reserve\<close> does\<close>




section \<open>Move and copy construction, and the capacity under shrinking\<close>

lemma live_Nil [simp]: "live [] = []"
  by (simp add: live_def)

text \<open>
  C8. Move construction returns a new container with the buffer, the size, the
  capacity and the elements the source had, and leaves the source with size 0,
  capacity 0 and no buffer. Nothing is lost and nothing can throw.
\<close>

theorem Vector_move_spec:
  "\<exists>new other'. Vector_move w other = (w, new, other') \<and>
     Size new = Size other \<and> Capacity new = Capacity other \<and>
     slots_of new = slots_of other \<and> elements new = elements other \<and>
     Size other' = 0 \<and> Capacity other' = 0 \<and> slots_of other' = []"
  by (simp add: Vector_move_def RawMemory_move_assign_def RawMemory_default_def
        Size_def Capacity_def slots_of_def elements_def)

lemma Vector_copy_Returned:
  assumes run: "Vector_copy E w other = Returned w' c"
  shows "Capacity c = Size other" "Size c = Size other" "length (slots_of c) = Size other"
    "\<forall>i<Size other. slots_of c ! i = slots_of other ! i"
proof -
  from run obtain w1 d k buf where
    new: "RawMemory_live E w (m_size other) = Returned w1 d"
    and cp: "uninitialized_copy_n E (clock w1) (slots_of other) 0 (m_size other) (m_buffer d) 0
               = Ok k buf"
    and c: "c = \<lparr>m_data = d\<lparr>m_buffer := buf\<rparr>, m_size = m_size other\<rparr>"
    unfolding Vector_copy_def by (auto split: outcome.splits res.splits)
  from RawMemory_live_Returned[OF new]
  have d: "d = \<lparr>m_buffer = replicate (m_size other) None, m_capacity = m_size other\<rparr>" by simp
  note M = ucopy_Ok[OF cp]
  show "Capacity c = Size other" "Size c = Size other"
    using c d by (simp_all add: Capacity_def Size_def)
  show "length (slots_of c) = Size other"
    using c d M by (simp add: slots_of_def Size_def)
  show "\<forall>i<Size other. slots_of c ! i = slots_of other ! i"
    using c d M by (simp add: slots_of_def Size_def)
qed

lemma Vector_copy_nothrow:
  assumes "\<forall>j. \<not> throws E j"
  shows "\<exists>w' c. Vector_copy E w other = Returned w' c"
proof -
  from RawMemory_live_nothrow[OF assms] obtain w1 where
    new: "RawMemory_live E w (m_size other) =
            Returned w1 \<lparr>m_buffer = replicate (m_size other) None, m_capacity = m_size other\<rparr>"
    by blast
  from ucopy_nothrow[OF assms] obtain k b where
    "uninitialized_copy_n E (clock w1) (slots_of other) 0 (m_size other)
       (replicate (m_size other) None) 0 = Ok k b" by blast
  with new show ?thesis by (simp add: Vector_copy_def)
qed

lemma elements_eqI:
  assumes "Size v' = Size v" "Size v \<le> length (slots_of v)" "Size v \<le> length (slots_of v')"
    and "\<forall>i<Size v. slots_of v' ! i = slots_of v ! i"
  shows "elements v' = elements v"
proof (rule nth_equalityI)
  show "length (elements v') = length (elements v)"
    using assms by (simp add: length_elements)
next
  fix i assume "i < length (elements v')"
  then have "i < Size v" using assms by (simp add: length_elements)
  then show "elements v' ! i = elements v ! i"
    using assms by (simp add: nth_elements)
qed

text \<open>
  C9. Whenever copy construction returns, the capacity of the copy is the size of the
  source, not its capacity, and so is its size; from a source that satisfies the
  representation invariant the copy has the same elements. For an element type and
  allocator that never throw, copy construction returns.
\<close>

theorem Vector_copy_spec:
  "(\<forall>w' c. Vector_copy E w other = Returned w' c \<longrightarrow>
      Capacity c = Size other \<and> Size c = Size other \<and>
      (Vector_inv other \<longrightarrow> elements c = elements other \<and> Vector_inv c)) \<and>
   ((\<forall>k. \<not> throws E k) \<longrightarrow> (\<exists>w' c. Vector_copy E w other = Returned w' c))"
proof -
  have a: "\<forall>w' c. Vector_copy E w other = Returned w' c \<longrightarrow>
      Capacity c = Size other \<and> Size c = Size other \<and>
      (Vector_inv other \<longrightarrow> elements c = elements other \<and> Vector_inv c)"
  proof (intro allI impI)
    fix w' c
    assume run: "Vector_copy E w other = Returned w' c"
    note C = Vector_copy_Returned[OF run]
    have "elements c = elements other \<and> Vector_inv c" if inv: "Vector_inv other"
    proof
      from inv have len: "length (slots_of other) = Capacity other" "Size other \<le> Capacity other"
        and lv: "\<forall>i<Size other. slots_of other ! i \<noteq> None"
        by (simp_all add: Vector_inv_nth)
      show "elements c = elements other"
        using C len by (intro elements_eqI) simp_all
      show "Vector_inv c"
        using C lv by (auto simp: Vector_inv_nth)
    qed
    with C show "Capacity c = Size other \<and> Size c = Size other \<and>
      (Vector_inv other \<longrightarrow> elements c = elements other \<and> Vector_inv c)" by blast
  qed
  have b: "(\<forall>k. \<not> throws E k) \<longrightarrow> (\<exists>w' c. Vector_copy E w other = Returned w' c)"
    using Vector_copy_nothrow by blast
  from a b show ?thesis by (intro conjI)
qed

theorem Vector_copy_spec_witness:
  "Vector_inv vec789 \<and> Capacity vec789 = 4 \<and>
   (\<exists>w' c. Vector_copy movable_elem world0 vec789 = Returned w' c \<and>
      Capacity c = 3 \<and> Size c = 3 \<and> elements c = [7, 8, 9])"
proof -
  have inv: "Vector_inv vec789"
    by (simp add: Vector_inv_def vec789_def slots_of_def Size_def Capacity_def)
  have nt: "\<forall>k. \<not> throws movable_elem k" by (simp add: movable_elem_def)
  have el: "elements vec789 = [7, 8, 9]" "Size vec789 = 3" "Capacity vec789 = 4"
    by (simp_all add: elements_def vec789_def Size_def slots_of_def Capacity_def)
  from Vector_copy_spec[of movable_elem world0 vec789] inv nt el
  show ?thesis by metis
qed

text \<open>
  C10. \<^verbatim>\<open>PopBack\<close> on a non-empty container, \<^verbatim>\<open>Erase\<close> at a position inside the
  live range and \<^verbatim>\<open>Resize\<close> to a smaller size leave the capacity as it was. The
  first and the last always return; \<^verbatim>\<open>Erase\<close> returns or, when a move assignment
  throws, throws, and the capacity is unchanged on both paths.
\<close>

theorem shrinking_keeps_capacity:
  "(0 < Size v \<longrightarrow> (\<exists>v'. PopBack w v = Returned w v' \<and> Capacity v' = Capacity v)) \<and>
   (pos < Size v \<longrightarrow>
      (\<exists>w' v'. ((\<exists>r. Erase E w v pos = Returned w' (v', r)) \<or> Erase E w v pos = Threw w' v') \<and>
         Capacity v' = Capacity v)) \<and>
   (new_size < Size v \<longrightarrow>
      (\<exists>v'. Resize E w v new_size = Returned w v' \<and> Capacity v' = Capacity v))"
proof -
  have a: "0 < Size v \<longrightarrow> (\<exists>v'. PopBack w v = Returned w v' \<and> Capacity v' = Capacity v)"
    by (simp add: PopBack_def Size_def Capacity_def with_slots_def)
  have b: "pos < Size v \<longrightarrow>
      (\<exists>w' v'. ((\<exists>r. Erase E w v pos = Returned w' (v', r)) \<or> Erase E w v pos = Threw w' v') \<and>
         Capacity v' = Capacity v)"
  proof
    assume p: "pos < Size v"
    show "\<exists>w' v'. ((\<exists>r. Erase E w v pos = Returned w' (v', r)) \<or> Erase E w v pos = Threw w' v') \<and>
         Capacity v' = Capacity v"
    proof (cases "std_move E (clock w) (slots_of v) (pos + 1) (end_pos v) pos")
      case (Ok k buf)
      with p show ?thesis
        by (auto simp: Erase_def Size_def Capacity_def with_slots_def begin_pos_def end_pos_def
              Let_def)
    next
      case (Exn k buf)
      with p show ?thesis
        by (auto simp: Erase_def Size_def Capacity_def with_slots_def begin_pos_def end_pos_def)
    qed
  qed
  have c: "new_size < Size v \<longrightarrow>
      (\<exists>v'. Resize E w v new_size = Returned w v' \<and> Capacity v' = Capacity v)"
    by (simp add: Resize_def Size_def Capacity_def with_slots_def)
  from a b c show ?thesis by (intro conjI)
qed

theorem shrinking_keeps_capacity_witness:
  "0 < Size vec789 \<and> 1 < Size vec789 \<and>
   (\<exists>v'. PopBack world0 vec789 = Returned world0 v' \<and> Capacity v' = 4) \<and>
   (\<exists>w' v' r. Erase movable_elem world0 vec789 1 = Returned w' (v', r) \<and> Capacity v' = 4) \<and>
   (\<exists>v'. Resize movable_elem world0 vec789 1 = Returned world0 v' \<and> Capacity v' = 4)"
proof -
  have sz: "0 < Size vec789" "1 < Size vec789" and cap: "Capacity vec789 = 4"
    by (simp_all add: vec789_def Size_def Capacity_def)
  have nothr: "\<And>w' v'. Erase movable_elem world0 vec789 1 \<noteq> Threw w' v'"
    by (simp add: Erase_def vec789_def movable_elem_def world0_def std_move_def slots_of_def
          begin_pos_def end_pos_def Let_def with_slots_def numeral_2_eq_2)
  from shrinking_keeps_capacity[of vec789 world0 1 movable_elem 1] sz cap nothr
  show ?thesis by metis
qed

section \<open>\<^verbatim>\<open>Resize\<close>\<close>

lemma Reserve_Returned_any:
  assumes inv: "Vector_inv v" and fits: "Capacity v < n \<longrightarrow> request_fits E n"
    and run: "Reserve E w v n = Returned w' v'"
  shows "n \<le> Capacity v'" "Size v' = Size v"
    "\<forall>i<Size v. slots_of v' ! i = slots_of v ! i" "elements v' = elements v" "Vector_inv v'"
proof -
  have "n \<le> Capacity v' \<and> Size v' = Size v \<and>
    (\<forall>i<Size v. slots_of v' ! i = slots_of v ! i) \<and> elements v' = elements v \<and> Vector_inv v'"
  proof (cases "n \<le> Capacity v")
    case True
    with run have "v' = v" by (simp add: Reserve_def Capacity_def)
    with True inv show ?thesis by simp
  next
    case False
    then have gt: "Capacity v < n" by simp
    with fits have f: "request_fits E n" by simp
    from Reserve_Returned[OF inv gt f run] show ?thesis by simp
  qed
  then show "n \<le> Capacity v'" "Size v' = Size v"
    "\<forall>i<Size v. slots_of v' ! i = slots_of v ! i" "elements v' = elements v" "Vector_inv v'"
    by blast+
qed







section \<open>\<^verbatim>\<open>EmplaceBack\<close> and \<^verbatim>\<open>PushBack\<close> at capacity\<close>

lemma EmplaceBack_full_Returned:
  assumes inv: "Vector_inv v" and full: "Size v = Capacity v"
    and run: "EmplaceBack E w v x = Returned w' (v', r)"
  shows "Capacity v' = max 1 (Capacity v * 2)" "Size v' = Size v + 1"
    "\<forall>i<Size v. slots_of v' ! i = slots_of v ! i"
    "r = Size v" "slots_of v' ! r = Some x"
    "elements v' = elements v @ [x]" "Vector_inv v'"
proof -
  let ?n = "if m_size v = 0 then 1 else m_size v * 2"
  from inv have len: "length (slots_of v) = Capacity v" "Size v \<le> Capacity v"
    and lv: "\<forall>i<Size v. slots_of v ! i \<noteq> None"
    by (simp_all add: Vector_inv_nth)
  from full have n: "?n = max 1 (Capacity v * 2)" "Size v < ?n"
    by (auto simp: Size_def)
  from run full obtain w1 nd w2 v1 nd' where
    new: "RawMemory_live E w ?n = Returned w1 nd"
    and cm: "CopyOrMoveData E (tick w1) v (nd\<lparr>m_buffer := (m_buffer nd)[m_size v := Some x]\<rparr>)
               = Returned w2 (v1, nd')"
    and ret: "EmplaceBack_return (RawMemory_dtor w2 nd') (v1\<lparr>m_size := m_size v1 + 1\<rparr>)
               = Returned w' (v', r)"
    unfolding EmplaceBack_def Size_def
    by (auto split: outcome.splits prod.splits if_splits)
  from RawMemory_live_Returned[OF new]
  have nd: "nd = \<lparr>m_buffer = replicate ?n None, m_capacity = ?n\<rparr>" by simp
  let ?nd1 = "nd\<lparr>m_buffer := (m_buffer nd)[m_size v := Some x]\<rparr>"
  have nlen: "length (m_buffer ?nd1) = m_capacity ?nd1" "Size v \<le> m_capacity ?nd1"
    using nd n by (simp_all add: Size_def)
  note C = CopyOrMoveData_Returned[OF cm len nlen]
  from ret have v': "v' = v1\<lparr>m_size := m_size v1 + 1\<rparr>" and r: "r = m_size v1"
    unfolding EmplaceBack_return_def RawMemory_at_def by (auto split: if_splits option.splits)
  have sl: "slots_of v' = slots_of v1" and sz: "Size v' = Size v + 1"
    and cap: "Capacity v' = ?n"
    using v' C(1,2) nd by (simp_all add: slots_of_def Size_def Capacity_def)
  have l': "length (slots_of v') = ?n" using C(3) nd by (simp add: sl)
  show "Capacity v' = max 1 (Capacity v * 2)" using cap n by simp
  show "Size v' = Size v + 1" by (rule sz)
  show keep: "\<forall>i<Size v. slots_of v' ! i = slots_of v ! i" using C(4) by (simp add: sl)
  show rr: "r = Size v" using r C(1) by (simp add: Size_def)
  have rest: "\<forall>i. Size v \<le> i \<and> i < ?n \<longrightarrow>
      slots_of v' ! i = (replicate ?n None)[m_size v := Some x] ! i"
    using C(5) nd by (simp add: sl)
  then have new_slot: "slots_of v' ! Size v = Some x"
    using n by (simp add: Size_def)
  then show "slots_of v' ! r = Some x" using rr by simp
  show "elements v' = elements v @ [x]"
  proof (rule nth_equalityI)
    show "length (elements v') = length (elements v @ [x])"
      using sz l' len n by (simp add: elements_def)
  next
    fix i assume "i < length (elements v')"
    then have i: "i < Size v + 1" using sz l' n by (simp add: elements_def)
    show "elements v' ! i = (elements v @ [x]) ! i"
    proof (cases "i < Size v")
      case True
      then show ?thesis using keep sz l' len n by (simp add: elements_def nth_append)
    next
      case False
      with i have "i = Size v" by simp
      then show ?thesis using new_slot sz l' len n by (simp add: elements_def nth_append)
    qed
  qed
  show "Vector_inv v'"
    unfolding Vector_inv_nth sz cap
  proof (intro conjI allI impI)
    show "length (slots_of v') = ?n" by (rule l')
    show "Size v + 1 \<le> ?n" using n by simp
  next
    fix i assume i: "i < Size v + 1"
    show "slots_of v' ! i \<noteq> None"
    proof (cases "i < Size v")
      case True
      then show ?thesis using keep lv by simp
    next
      case False
      with i have "i = Size v" by simp
      then show ?thesis using new_slot by simp
    qed
  next
    fix i assume "Size v + 1 \<le> i \<and> i < ?n"
    then show "slots_of v' ! i = None"
      using rest by (simp add: Size_def)
  qed
qed

lemma EmplaceBack_full_nothrow:
  assumes nt: "\<forall>j. \<not> throws E j" and full: "Size v = Capacity v"
  shows "\<exists>w' v' r. EmplaceBack E w v x = Returned w' (v', r)"
proof -
  let ?n = "if m_size v = 0 then 1 else m_size v * 2"
  from RawMemory_live_nothrow[OF nt] obtain w1 where
    new: "RawMemory_live E w ?n = Returned w1 \<lparr>m_buffer = replicate ?n None, m_capacity = ?n\<rparr>"
    by blast
  let ?nd1 = "\<lparr>m_buffer = (replicate ?n None)[m_size v := Some x], m_capacity = ?n\<rparr>"
  from CopyOrMoveData_nothrow[OF nt] obtain w2 rr where
    cm: "CopyOrMoveData E (tick w1) v ?nd1 = Returned w2 rr" by blast
  obtain v1 nd' where rr: "rr = (v1, nd')" by (cases rr)
  from cm rr have "m_size v1 = m_size v \<and> m_capacity (m_data v1) = ?n"
    by (auto simp: CopyOrMoveData_def swap_and_destroy_def RawMemory_Swap_def with_slots_def
             split: if_splits res.splits prod.splits)
  then have "\<exists>w' v' r. EmplaceBack_return (RawMemory_dtor w2 nd') (v1\<lparr>m_size := m_size v1 + 1\<rparr>)
      = Returned w' (v', r)"
    by (auto simp: EmplaceBack_return_def RawMemory_at_def)
  with new cm rr nt full show ?thesis
    by (auto simp: EmplaceBack_def Size_def)
qed

lemma PushBack_Returned:
  "PushBack E w v x = Returned w' v' \<longleftrightarrow> (\<exists>r. EmplaceBack E w v x = Returned w' (v', r))"
  by (auto simp: PushBack_def split: outcome.splits)

text \<open>
  C3. For a container that satisfies the representation invariant and has
  \<open>size = capacity\<close>: whenever \<^verbatim>\<open>EmplaceBack\<close> (or \<^verbatim>\<open>PushBack\<close>, which calls it)
  returns, the capacity is \<open>max 1 (2 * old capacity)\<close>, the size has grown by one, the
  slots of the old elements hold what they held, the new element is in the slot of
  index old size, and the reference that \<^verbatim>\<open>EmplaceBack\<close> returns is that slot. When
  nothing throws, both return.
\<close>

theorem EmplaceBack_full_spec:
  assumes "Vector_inv v" and "Size v = Capacity v"
  shows "(\<forall>w' v' r. EmplaceBack E w v x = Returned w' (v', r) \<longrightarrow>
        Capacity v' = max 1 (Capacity v * 2) \<and> Size v' = Size v + 1 \<and>
        (\<forall>i<Size v. slots_of v' ! i = slots_of v ! i) \<and>
        r = Size v \<and> slots_of v' ! r = Some x \<and>
        elements v' = elements v @ [x] \<and> Vector_inv v') \<and>
    (\<forall>w' v'. PushBack E w v x = Returned w' v' \<longrightarrow>
        Capacity v' = max 1 (Capacity v * 2) \<and> Size v' = Size v + 1 \<and>
        (\<forall>i<Size v. slots_of v' ! i = slots_of v ! i) \<and>
        slots_of v' ! Size v = Some x \<and>
        elements v' = elements v @ [x] \<and> Vector_inv v') \<and>
    ((\<forall>k. \<not> throws E k) \<longrightarrow>
        (\<exists>w' v' r. EmplaceBack E w v x = Returned w' (v', r) \<and>
                   PushBack E w v x = Returned w' v'))"
proof -
  have a: "\<forall>w' v' r. EmplaceBack E w v x = Returned w' (v', r) \<longrightarrow>
        Capacity v' = max 1 (Capacity v * 2) \<and> Size v' = Size v + 1 \<and>
        (\<forall>i<Size v. slots_of v' ! i = slots_of v ! i) \<and>
        r = Size v \<and> slots_of v' ! r = Some x \<and>
        elements v' = elements v @ [x] \<and> Vector_inv v'"
  proof (intro allI impI)
    fix w' v' r
    assume run: "EmplaceBack E w v x = Returned w' (v', r)"
    show "Capacity v' = max 1 (Capacity v * 2) \<and> Size v' = Size v + 1 \<and>
        (\<forall>i<Size v. slots_of v' ! i = slots_of v ! i) \<and>
        r = Size v \<and> slots_of v' ! r = Some x \<and>
        elements v' = elements v @ [x] \<and> Vector_inv v'"
      by (intro conjI EmplaceBack_full_Returned[OF assms run])
  qed
  have b: "\<forall>w' v'. PushBack E w v x = Returned w' v' \<longrightarrow>
        Capacity v' = max 1 (Capacity v * 2) \<and> Size v' = Size v + 1 \<and>
        (\<forall>i<Size v. slots_of v' ! i = slots_of v ! i) \<and>
        slots_of v' ! Size v = Some x \<and>
        elements v' = elements v @ [x] \<and> Vector_inv v'"
  proof (intro allI impI)
    fix w' v'
    assume "PushBack E w v x = Returned w' v'"
    then obtain r where run: "EmplaceBack E w v x = Returned w' (v', r)"
      unfolding PushBack_Returned by blast
    note R = EmplaceBack_full_Returned[OF assms run]
    from R(4,5) have "slots_of v' ! Size v = Some x" by simp
    with R show "Capacity v' = max 1 (Capacity v * 2) \<and> Size v' = Size v + 1 \<and>
        (\<forall>i<Size v. slots_of v' ! i = slots_of v ! i) \<and>
        slots_of v' ! Size v = Some x \<and>
        elements v' = elements v @ [x] \<and> Vector_inv v'"
      by (intro conjI)
  qed
  have c: "(\<forall>k. \<not> throws E k) \<longrightarrow>
        (\<exists>w' v' r. EmplaceBack E w v x = Returned w' (v', r) \<and>
                   PushBack E w v x = Returned w' v')"
  proof
    assume "\<forall>k. \<not> throws E k"
    from EmplaceBack_full_nothrow[OF this assms(2)] obtain w' v' r where
      run: "EmplaceBack E w v x = Returned w' (v', r)" by blast
    then have "PushBack E w v x = Returned w' v'" unfolding PushBack_Returned by blast
    with run show "\<exists>w' v' r. EmplaceBack E w v x = Returned w' (v', r) \<and>
                   PushBack E w v x = Returned w' v'" by blast
  qed
  from a b c show ?thesis by (intro conjI)
qed

theorem EmplaceBack_full_spec_witness:
  "Vector_inv vec78 \<and> Size vec78 = Capacity vec78 \<and>
   (\<exists>w' v'. EmplaceBack movable_elem world0 vec78 5 = Returned w' (v', 2) \<and>
      PushBack movable_elem world0 vec78 5 = Returned w' v' \<and>
      Capacity v' = 4 \<and> Size v' = 3 \<and> slots_of v' ! 2 = Some 5 \<and> elements v' = [7, 8, 5])"
proof -
  have inv: "Vector_inv vec78"
    by (simp add: Vector_inv_def vec78_def slots_of_def Size_def Capacity_def)
  have full: "Size vec78 = Capacity vec78" by (simp add: vec78_def Size_def Capacity_def)
  have nt: "\<forall>k. \<not> throws movable_elem k" by (simp add: movable_elem_def)
  have el: "elements vec78 @ [5] = [7, 8, 5]" "Size vec78 = 2" "Capacity vec78 = 2"
    by (simp_all add: elements_def vec78_def Size_def slots_of_def Capacity_def)
  note T = EmplaceBack_full_spec[OF inv full, of movable_elem world0 5]
  from T nt obtain w' v' r where
    run: "EmplaceBack movable_elem world0 vec78 5 = Returned w' (v', r)"
      "PushBack movable_elem world0 vec78 5 = Returned w' v'" by blast
  with T have "Capacity v' = max 1 (Capacity vec78 * 2) \<and> Size v' = Size vec78 + 1 \<and>
        r = Size vec78 \<and> slots_of v' ! r = Some 5 \<and> elements v' = elements vec78 @ [5]"
    by blast
  with el have "Capacity v' = 4 \<and> Size v' = 3 \<and> r = 2 \<and> slots_of v' ! 2 = Some 5 \<and>
      elements v' = [7, 8, 5]"
    by auto
  with run inv full show ?thesis by blast
qed

section \<open>\<^verbatim>\<open>Erase\<close>\<close>

text \<open>Inside the live range \<^verbatim>\<open>size_\<close> is positive and its decrement does not wrap.\<close>

lemma Erase_in_range:
  assumes "pos < Size v"
  shows "Erase E w v pos =
     (case std_move E (clock w) (slots_of v) (pos + 1) (end_pos v) pos of
        Ok k buf \<Rightarrow>
          (let v1 = with_slots v (destroy_n buf (m_size v - 1) 1);
               v2 = v1\<lparr>m_size := m_size v1 - 1\<rparr>
           in if m_size v2 = 0 then Returned (w\<lparr>clock := k\<rparr>) (v2, end_pos v2)
              else Returned (w\<lparr>clock := k\<rparr>) (v2, pos))
      | Exn k buf \<Rightarrow> Threw (w\<lparr>clock := k\<rparr>) (with_slots v buf))"
  using assms
  by (cases "std_move E (clock w) (slots_of v) (pos + 1) (end_pos v) pos")
     (simp_all add: Erase_def size_t_dec_def Size_def with_slots_def Let_def)

lemma Erase_Returned:
  assumes inv: "Vector_inv v" and p: "pos < Size v"
    and run: "Erase E w v pos = Returned w' (v', r)"
  shows "Size v' = Size v - 1" "Capacity v' = Capacity v"
    "\<forall>i<pos. slots_of v' ! i = slots_of v ! i"
    "\<forall>i. pos < i \<and> i < Size v \<longrightarrow> slots_of v' ! (i - 1) = slots_of v ! i"
    "slots_of v' ! (Size v - 1) = None"
    "r = pos"
    "clock w' = clock w + (Size v - 1 - pos)" "leaked w' = leaked w"
    "elements v' = take pos (elements v) @ drop (Suc pos) (elements v)"
    "Vector_inv v'"
proof -
  let ?n = "Size v - Suc pos"
  from inv have len: "length (slots_of v) = Capacity v" "Size v \<le> Capacity v"
    and lv: "\<forall>i<Size v. slots_of v ! i \<noteq> None"
    and un: "\<forall>i. Size v \<le> i \<and> i < Capacity v \<longrightarrow> slots_of v ! i = None"
    by (simp_all add: Vector_inv_nth)
  from run p obtain k buf where
    mv: "move_n E (clock w) (slots_of v) (Suc pos) ?n pos = Ok k buf"
    and w': "w' = w\<lparr>clock := k\<rparr>"
    and v': "v' = (with_slots v (destroy_n buf (m_size v - 1) 1))\<lparr>m_size := m_size v - 1\<rparr>"
    and r: "r = (if m_size v - 1 = 0 then 0 else pos)"
    unfolding Erase_in_range[OF p] std_move_def begin_pos_def end_pos_def Size_def
    by (auto simp: Let_def with_slots_def split: res.splits if_splits)
  have bound: "Suc pos + ?n \<le> length (slots_of v)" using p len by simp
  note M = move_n_Ok[OF mv bound]
  have sl: "slots_of v' = destroy_n buf (Size v - 1) 1"
    and sz: "Size v' = Size v - 1" and cap: "Capacity v' = Capacity v"
    using v' by (simp_all add: slots_of_def with_slots_def Size_def Capacity_def)
  have lb: "length buf = Capacity v" using M len by simp
  show "Size v' = Size v - 1" by (rule sz)
  show "Capacity v' = Capacity v" by (rule cap)
  show keep: "\<forall>i<pos. slots_of v' ! i = slots_of v ! i"
    using M lb len p by (simp add: sl nth_destroy_n)
  show shift: "\<forall>i. pos < i \<and> i < Size v \<longrightarrow> slots_of v' ! (i - 1) = slots_of v ! i"
  proof (intro allI impI)
    fix i assume "pos < i \<and> i < Size v"
    then have i: "pos < i" "i < Size v" by simp_all
    then have "i - Suc pos < ?n" by simp
    with M have "buf ! (pos + (i - Suc pos)) = slots_of v ! (Suc pos + (i - Suc pos))" by blast
    with i have "buf ! (i - 1) = slots_of v ! i" by simp
    with i lb len show "slots_of v' ! (i - 1) = slots_of v ! i"
      by (simp add: sl nth_destroy_n)
  qed
  show last_gone: "slots_of v' ! (Size v - 1) = None"
    using lb len p by (simp add: sl nth_destroy_n)
  show "r = pos" using r p by (auto simp: Size_def)
  show "clock w' = clock w + (Size v - 1 - pos)" using M w' by simp
  show "leaked w' = leaked w" using w' by simp
  show "elements v' = take pos (elements v) @ drop (Suc pos) (elements v)"
  proof (rule nth_equalityI)
    show "length (elements v') = length (take pos (elements v) @ drop (Suc pos) (elements v))"
      using sz sl lb len p by (simp add: elements_def)
  next
    fix i assume "i < length (elements v')"
    then have i: "i < Size v - 1" using sz sl lb len by (simp add: elements_def)
    show "elements v' ! i = (take pos (elements v) @ drop (Suc pos) (elements v)) ! i"
    proof (cases "i < pos")
      case True
      then show ?thesis
        using keep i sz sl lb len p by (simp add: elements_def nth_append)
    next
      case False
      then have "pos < Suc i \<and> Suc i < Size v" using i by simp
      with shift have "slots_of v' ! i = slots_of v ! Suc i" by fastforce
      with False show ?thesis
        using i sz sl lb len p by (simp add: elements_def nth_append)
    qed
  qed
  show "Vector_inv v'"
    unfolding Vector_inv_nth sz cap
  proof (intro conjI allI impI)
    show "length (slots_of v') = Capacity v" using lb by (simp add: sl)
    show "Size v - 1 \<le> Capacity v" using len by simp
  next
    fix i assume i: "i < Size v - 1"
    show "slots_of v' ! i \<noteq> None"
    proof (cases "i < pos")
      case True
      then show ?thesis using keep lv p by simp
    next
      case False
      then have "pos < Suc i \<and> Suc i < Size v" using i by simp
      with shift have "slots_of v' ! i = slots_of v ! Suc i" by fastforce
      then show ?thesis using lv i by simp
    qed
  next
    fix i assume "Size v - 1 \<le> i \<and> i < Capacity v"
    then have i: "Size v - 1 \<le> i" "i < Capacity v" by simp_all
    show "slots_of v' ! i = None"
    proof (cases "i = Size v - 1")
      case True
      then show ?thesis using last_gone by simp
    next
      case False
      with i have "Size v \<le> i" by simp
      moreover from this p have "pos + ?n < i" by simp
      ultimately show ?thesis
        using M un i lb len by (simp add: sl nth_destroy_n)
    qed
  qed
qed

lemma Erase_nothrow:
  assumes nt: "\<forall>j. \<not> throws E j" and p: "pos < Size v"
  shows "\<exists>w' v' r. Erase E w v pos = Returned w' (v', r)"
proof -
  from move_n_nothrow[OF nt] obtain k b where
    "move_n E (clock w) (slots_of v) (pos + 1) (end_pos v - (pos + 1)) pos = Ok k b" by blast
  with p show ?thesis
    by (simp add: Erase_def std_move_def begin_pos_def end_pos_def Size_def Let_def)
qed

text \<open>
  C7. For a container that satisfies the representation invariant and a position
  \<open>pos < size\<close>: whenever \<^verbatim>\<open>Erase(pos)\<close> returns, every element at an index \<open>i\<close> with
  \<open>pos < i < size\<close> is in slot \<open>i - 1\<close>, the slots below \<open>pos\<close> are as before, the last
  slot of the old live range holds no object, the size is one less, and exactly
  \<open>size - 1 - pos\<close> move assignments were made (the only clock ticks). The position
  returned is \<open>pos\<close>: it is \<^verbatim>\<open>end()\<close> when the last element was removed and the slot
  of the old successor otherwise. When nothing throws, \<^verbatim>\<open>Erase\<close> returns.
\<close>

theorem Erase_spec:
  assumes "Vector_inv v" and "pos < Size v"
  shows "(\<forall>w' v' r. Erase E w v pos = Returned w' (v', r) \<longrightarrow>
        Size v' = Size v - 1 \<and>
        (\<forall>i<pos. slots_of v' ! i = slots_of v ! i) \<and>
        (\<forall>i. pos < i \<and> i < Size v \<longrightarrow> slots_of v' ! (i - 1) = slots_of v ! i) \<and>
        slots_of v' ! (Size v - 1) = None \<and>
        clock w' = clock w + (Size v - 1 - pos) \<and>
        elements v' = take pos (elements v) @ drop (Suc pos) (elements v) \<and>
        Vector_inv v' \<and>
        r = pos \<and>
        (pos = Size v - 1 \<longrightarrow> r = end_pos v') \<and>
        (pos < Size v - 1 \<longrightarrow> r < end_pos v' \<and> slots_of v' ! r = slots_of v ! (pos + 1))) \<and>
    ((\<forall>k. \<not> throws E k) \<longrightarrow> (\<exists>w' v' r. Erase E w v pos = Returned w' (v', r)))"
proof -
  have a: "\<forall>w' v' r. Erase E w v pos = Returned w' (v', r) \<longrightarrow>
        Size v' = Size v - 1 \<and>
        (\<forall>i<pos. slots_of v' ! i = slots_of v ! i) \<and>
        (\<forall>i. pos < i \<and> i < Size v \<longrightarrow> slots_of v' ! (i - 1) = slots_of v ! i) \<and>
        slots_of v' ! (Size v - 1) = None \<and>
        clock w' = clock w + (Size v - 1 - pos) \<and>
        elements v' = take pos (elements v) @ drop (Suc pos) (elements v) \<and>
        Vector_inv v' \<and>
        r = pos \<and>
        (pos = Size v - 1 \<longrightarrow> r = end_pos v') \<and>
        (pos < Size v - 1 \<longrightarrow> r < end_pos v' \<and> slots_of v' ! r = slots_of v ! (pos + 1))"
  proof (intro allI impI)
    fix w' v' r
    assume run: "Erase E w v pos = Returned w' (v', r)"
    note R = Erase_Returned[OF assms run]
    have e: "end_pos v' = Size v - 1" using R(1) by (simp add: end_pos_def Size_def)
    have x: "pos = Size v - 1 \<longrightarrow> r = end_pos v'" using R(6) e by simp
    have y: "pos < Size v - 1 \<longrightarrow> r < end_pos v' \<and> slots_of v' ! r = slots_of v ! (pos + 1)"
    proof
      assume lt: "pos < Size v - 1"
      then have "pos < Suc pos \<and> Suc pos < Size v" by simp
      with R(4) have "slots_of v' ! (Suc pos - 1) = slots_of v ! Suc pos" by blast
      with lt R(6) e show "r < end_pos v' \<and> slots_of v' ! r = slots_of v ! (pos + 1)" by simp
    qed
    from R(1,3,4,5,7,9,10,6) x y
    show "Size v' = Size v - 1 \<and>
        (\<forall>i<pos. slots_of v' ! i = slots_of v ! i) \<and>
        (\<forall>i. pos < i \<and> i < Size v \<longrightarrow> slots_of v' ! (i - 1) = slots_of v ! i) \<and>
        slots_of v' ! (Size v - 1) = None \<and>
        clock w' = clock w + (Size v - 1 - pos) \<and>
        elements v' = take pos (elements v) @ drop (Suc pos) (elements v) \<and>
        Vector_inv v' \<and>
        r = pos \<and>
        (pos = Size v - 1 \<longrightarrow> r = end_pos v') \<and>
        (pos < Size v - 1 \<longrightarrow> r < end_pos v' \<and> slots_of v' ! r = slots_of v ! (pos + 1))"
      by (intro conjI)
  qed
  have b: "(\<forall>k. \<not> throws E k) \<longrightarrow> (\<exists>w' v' r. Erase E w v pos = Returned w' (v', r))"
    using Erase_nothrow[OF _ assms(2)] by blast
  from a b show ?thesis by (intro conjI)
qed

theorem Erase_spec_witness:
  "Vector_inv vec789 \<and> 1 < Size vec789 \<and> 2 < Size vec789 \<and>
   (\<exists>w' v'. Erase movable_elem world0 vec789 1 = Returned w' (v', 1) \<and>
      Size v' = 2 \<and> elements v' = [7, 9] \<and> clock w' = 1 \<and> slots_of v' ! 1 = Some 9) \<and>
   (\<exists>w' v'. Erase movable_elem world0 vec789 2 = Returned w' (v', 2) \<and>
      Size v' = 2 \<and> elements v' = [7, 8] \<and> end_pos v' = 2)"
proof -
  have inv: "Vector_inv vec789"
    by (simp add: Vector_inv_def vec789_def slots_of_def Size_def Capacity_def)
  have nt: "\<forall>k. \<not> throws movable_elem k" by (simp add: movable_elem_def)
  have sz: "1 < Size vec789" "2 < Size vec789" "Size vec789 = 3" "clock world0 = 0"
    "slots_of vec789 ! Suc (Suc 0) = Some 9"
    by (simp_all add: vec789_def Size_def world0_def slots_of_def)
  have el: "take 1 (elements vec789) @ drop (Suc 1) (elements vec789) = [7, 9]"
    "take 2 (elements vec789) @ drop (Suc 2) (elements vec789) = [7, 8]"
    by (simp_all add: elements_def vec789_def Size_def slots_of_def numeral_3_eq_3)
  note T1 = Erase_spec[OF inv sz(1), of movable_elem world0]
  from T1 nt obtain w1 v1 r1 where
    run1: "Erase movable_elem world0 vec789 1 = Returned w1 (v1, r1)" by blast
  with T1 have "Size v1 = Size vec789 - 1 \<and> clock w1 = clock world0 + (Size vec789 - 1 - 1) \<and>
      elements v1 = take 1 (elements vec789) @ drop (Suc 1) (elements vec789) \<and> r1 = 1 \<and>
      (1 < Size vec789 - 1 \<longrightarrow> slots_of v1 ! r1 = slots_of vec789 ! (1 + 1))"
    by blast
  with sz el have "Size v1 = 2 \<and> elements v1 = [7, 9] \<and> clock w1 = 1 \<and> r1 = 1 \<and>
      slots_of v1 ! 1 = Some 9"
    by auto
  with run1 have a: "\<exists>w' v'. Erase movable_elem world0 vec789 1 = Returned w' (v', 1) \<and>
      Size v' = 2 \<and> elements v' = [7, 9] \<and> clock w' = 1 \<and> slots_of v' ! 1 = Some 9"
    by blast
  note T2 = Erase_spec[OF inv sz(2), of movable_elem world0]
  from T2 nt obtain w2 v2 r2 where
    run2: "Erase movable_elem world0 vec789 2 = Returned w2 (v2, r2)" by blast
  with T2 have "Size v2 = Size vec789 - 1 \<and>
      elements v2 = take 2 (elements vec789) @ drop (Suc 2) (elements vec789) \<and> r2 = 2 \<and>
      (2 = Size vec789 - 1 \<longrightarrow> r2 = end_pos v2)"
    by blast
  with sz el have "Size v2 = 2 \<and> elements v2 = [7, 8] \<and> r2 = 2 \<and> end_pos v2 = 2"
    by auto
  with run2 have b: "\<exists>w' v'. Erase movable_elem world0 vec789 2 = Returned w' (v', 2) \<and>
      Size v' = 2 \<and> elements v' = [7, 8] \<and> end_pos v' = 2"
    by blast
  from inv sz(1,2) a b show ?thesis by (intro conjI)
qed

section \<open>\<^verbatim>\<open>Emplace\<close>, \<^verbatim>\<open>Insert\<close> and the round trip with \<^verbatim>\<open>Erase\<close>\<close>

lemma CopyOrMovePartData_Returned:
  assumes run: "CopyOrMovePartData E w v nd pos = Returned w' (v', nd')"
    and len: "length (slots_of v) = Capacity v" "Size v \<le> Capacity v"
    and nlen: "length (m_buffer nd) = m_capacity nd" "Size v < m_capacity nd"
    and p: "pos \<le> Size v"
  shows "Size v' = Size v" "Capacity v' = m_capacity nd" "length (slots_of v') = m_capacity nd"
    "\<forall>i<pos. slots_of v' ! i = slots_of v ! i"
    "\<forall>i. pos \<le> i \<and> i < Size v \<longrightarrow> slots_of v' ! Suc i = slots_of v ! i"
    "slots_of v' ! pos = m_buffer nd ! pos"
    "\<forall>i. Size v < i \<and> i < m_capacity nd \<longrightarrow> slots_of v' ! i = m_buffer nd ! i"
proof -
  have "\<exists>dst. slots_of v' = dst \<and> Size v' = Size v \<and> Capacity v' = m_capacity nd \<and>
      length dst = m_capacity nd \<and>
      (\<forall>j<pos. dst ! j = slots_of v ! j) \<and>
      (\<forall>j<Size v - pos. dst ! (Suc pos + j) = slots_of v ! (pos + j)) \<and>
      (\<forall>i<m_capacity nd. i = pos \<or> Size v < i \<longrightarrow> dst ! i = m_buffer nd ! i)"
  proof (cases "is_nothrow_move_constructible E \<or> \<not> is_copy_constructible E")
    case True
    with run obtain k src dst k' src' dst' where
      m1: "uninitialized_move_n E (clock w) (slots_of v) 0 pos (m_buffer nd) 0 = Ok k (src, dst)"
      and m2: "uninitialized_move_n E k src pos (Size v - pos) dst (Suc pos) = Ok k' (src', dst')"
      and sd: "swap_and_destroy (w\<lparr>clock := k'\<rparr>) (with_slots v src') (nd\<lparr>m_buffer := dst'\<rparr>)
                = Returned w' (v', nd')"
      unfolding CopyOrMovePartData_def uninitialized_move_def begin_pos_def end_pos_def Size_def
      by (auto split: res.splits prod.splits)
    note M1 = umove_Ok[OF m1]
    note M2 = umove_Ok[OF m2]
    from sd have v': "v' = (with_slots v src')\<lparr>m_data := nd\<lparr>m_buffer := dst'\<rparr>\<rparr>"
      unfolding swap_and_destroy_def RawMemory_Swap_def with_slots_def by auto
    have a: "\<forall>j<pos. dst' ! j = slots_of v ! j"
      using M1 M2 nlen p by simp
    have b: "\<forall>j<Size v - pos. dst' ! (Suc pos + j) = slots_of v ! (pos + j)"
    proof (intro allI impI)
      fix j assume j: "j < Size v - pos"
      with M2 M1 nlen have "dst' ! (Suc pos + j) = src ! (pos + j)" by simp
      also have "\<dots> = slots_of v ! (pos + j)" using M1 j len by simp
      finally show "dst' ! (Suc pos + j) = slots_of v ! (pos + j)" .
    qed
    have c: "\<forall>i<m_capacity nd. i = pos \<or> Size v < i \<longrightarrow> dst' ! i = m_buffer nd ! i"
      using M1 M2 nlen p by auto
    from a b c M1 M2 nlen show ?thesis
      unfolding v' by (simp add: Size_def Capacity_def slots_of_def with_slots_def)
  next
    case False
    with run obtain k dst k' dst' where
      m1: "uninitialized_copy_n E (clock w) (slots_of v) 0 pos (m_buffer nd) 0 = Ok k dst"
      and m2: "uninitialized_copy_n E k (slots_of v) pos (Size v - pos) dst (Suc pos) = Ok k' dst'"
      and sd: "swap_and_destroy (w\<lparr>clock := k'\<rparr>) v (nd\<lparr>m_buffer := dst'\<rparr>)
                = Returned w' (v', nd')"
      unfolding CopyOrMovePartData_def uninitialized_copy_def begin_pos_def end_pos_def Size_def
      by (auto split: res.splits prod.splits)
    note M1 = ucopy_Ok[OF m1]
    note M2 = ucopy_Ok[OF m2]
    from sd have v': "v' = v\<lparr>m_data := nd\<lparr>m_buffer := dst'\<rparr>\<rparr>"
      unfolding swap_and_destroy_def RawMemory_Swap_def by auto
    have a: "\<forall>j<pos. dst' ! j = slots_of v ! j"
      using M1 M2 nlen p by simp
    have b: "\<forall>j<Size v - pos. dst' ! (Suc pos + j) = slots_of v ! (pos + j)"
      using M1 M2 nlen by simp
    have c: "\<forall>i<m_capacity nd. i = pos \<or> Size v < i \<longrightarrow> dst' ! i = m_buffer nd ! i"
      using M1 M2 nlen p by auto
    from a b c M1 M2 nlen show ?thesis
      unfolding v' by (simp add: Size_def Capacity_def slots_of_def)
  qed
  then obtain dst where d: "slots_of v' = dst" "Size v' = Size v" "Capacity v' = m_capacity nd"
      "length dst = m_capacity nd" "\<forall>j<pos. dst ! j = slots_of v ! j"
      "\<forall>j<Size v - pos. dst ! (Suc pos + j) = slots_of v ! (pos + j)"
      "\<forall>i<m_capacity nd. i = pos \<or> Size v < i \<longrightarrow> dst ! i = m_buffer nd ! i"
    by blast
  show "Size v' = Size v" "Capacity v' = m_capacity nd" "length (slots_of v') = m_capacity nd"
    "\<forall>i<pos. slots_of v' ! i = slots_of v ! i"
    using d by simp_all
  show "\<forall>i. pos \<le> i \<and> i < Size v \<longrightarrow> slots_of v' ! Suc i = slots_of v ! i"
  proof (intro allI impI)
    fix i assume "pos \<le> i \<and> i < Size v"
    then have i: "pos \<le> i" "i < Size v" by simp_all
    then have "i - pos < Size v - pos" by simp
    with d(6) have "dst ! (Suc pos + (i - pos)) = slots_of v ! (pos + (i - pos))" by blast
    with i d(1) show "slots_of v' ! Suc i = slots_of v ! i" by simp
  qed
  have "pos < m_capacity nd" using p nlen by simp
  with d(7) have "dst ! pos = m_buffer nd ! pos" by blast
  then show "slots_of v' ! pos = m_buffer nd ! pos" using d(1) by simp
  show "\<forall>i. Size v < i \<and> i < m_capacity nd \<longrightarrow> slots_of v' ! i = m_buffer nd ! i"
    using d by simp
qed

lemma CopyOrMovePartData_nothrow:
  assumes "\<forall>j. \<not> throws E j"
  shows "\<exists>w' r. CopyOrMovePartData E w v nd pos = Returned w' r"
proof (cases "is_nothrow_move_constructible E \<or> \<not> is_copy_constructible E")
  case True
  from umove_nothrow[OF assms] obtain k s b where
    m1: "uninitialized_move_n E (clock w) (slots_of v) (begin_pos v) (pos - begin_pos v)
           (m_buffer nd) 0 = Ok k (s, b)"
    by blast
  from umove_nothrow[OF assms] obtain k' s' b' where
    "uninitialized_move_n E k s pos (end_pos v - pos) b (pos - begin_pos v + 1) = Ok k' (s', b')"
    by blast
  with m1 True show ?thesis
    by (simp add: CopyOrMovePartData_def uninitialized_move_def swap_and_destroy_def
          RawMemory_Swap_def)
next
  case False
  from ucopy_nothrow[OF assms] obtain k b where
    m1: "uninitialized_copy_n E (clock w) (slots_of v) (begin_pos v) (pos - begin_pos v)
           (m_buffer nd) 0 = Ok k b"
    by blast
  from ucopy_nothrow[OF assms] obtain k' b' where
    "uninitialized_copy_n E k (slots_of v) pos (end_pos v - pos) b (pos - begin_pos v + 1)
       = Ok k' b'"
    by blast
  with m1 False show ?thesis
    by (simp add: CopyOrMovePartData_def uninitialized_copy_def swap_and_destroy_def
          RawMemory_Swap_def)
qed


lemma elements_insertI:
  assumes sz: "Size v' = Size v + 1" and l': "Size v < length (slots_of v')"
    and l: "Size v \<le> length (slots_of v)" and p: "pos \<le> Size v"
    and keep: "\<forall>i<pos. slots_of v' ! i = slots_of v ! i"
    and new: "slots_of v' ! pos = Some x"
    and shift: "\<forall>i. pos \<le> i \<and> i < Size v \<longrightarrow> slots_of v' ! Suc i = slots_of v ! i"
  shows "elements v' = take pos (elements v) @ [x] @ drop pos (elements v)"
proof (rule nth_equalityI)
  show "length (elements v') = length (take pos (elements v) @ [x] @ drop pos (elements v))"
    using sz l' l p by (simp add: elements_def)
next
  fix i assume "i < length (elements v')"
  then have i: "i < Size v + 1" using sz l' by (simp add: elements_def)
  consider "i < pos" | "i = pos" | "pos < i" by linarith
  then show "elements v' ! i = (take pos (elements v) @ [x] @ drop pos (elements v)) ! i"
  proof cases
    case 1
    then show ?thesis using keep sz l' l p by (simp add: elements_def nth_append)
  next
    case 2
    then show ?thesis using new sz l' l p by (simp add: elements_def nth_append)
  next
    case 3
    then obtain j where j: "i = Suc j" "pos \<le> j" "j < Size v"
      using i by (cases i) auto
    with shift have "slots_of v' ! Suc j = slots_of v ! j" by blast
    with j show ?thesis
      using sz l' l p by (simp add: elements_def nth_append Suc_diff_le)
  qed
qed

lemma Vector_inv_insertI:
  assumes inv: "Vector_inv v"
    and sz: "Size v' = Size v + 1" and l': "length (slots_of v') = Capacity v'"
    and c: "Size v < Capacity v'" and p: "pos \<le> Size v"
    and keep: "\<forall>i<pos. slots_of v' ! i = slots_of v ! i"
    and new: "slots_of v' ! pos = Some x"
    and shift: "\<forall>i. pos \<le> i \<and> i < Size v \<longrightarrow> slots_of v' ! Suc i = slots_of v ! i"
    and rest: "\<forall>i. Size v < i \<and> i < Capacity v' \<longrightarrow> slots_of v' ! i = None"
  shows "Vector_inv v'"
  unfolding Vector_inv_nth sz
proof (intro conjI allI impI)
  show "length (slots_of v') = Capacity v'" by (rule l')
  show "Size v + 1 \<le> Capacity v'" using c by simp
next
  from inv have lv: "\<forall>i<Size v. slots_of v ! i \<noteq> None" by (simp add: Vector_inv_nth)
  fix i assume i: "i < Size v + 1"
  consider "i < pos" | "i = pos" | "pos < i" by linarith
  then show "slots_of v' ! i \<noteq> None"
  proof cases
    case 1
    then show ?thesis using keep lv p by simp
  next
    case 2
    then show ?thesis using new by simp
  next
    case 3
    then obtain j where j: "i = Suc j" "pos \<le> j" "j < Size v"
      using i by (cases i) auto
    with shift have "slots_of v' ! Suc j = slots_of v ! j" by blast
    with j lv show ?thesis by simp
  qed
next
  fix i assume "Size v + 1 \<le> i \<and> i < Capacity v'"
  then show "slots_of v' ! i = None" using rest by simp
qed

lemma Emplace_at_capacity:
  assumes "pos \<le> Size v" and "Size v = Capacity v"
  shows "Emplace E w v pos x =
     (case RawMemory_live E w (if m_size v = 0 then 1 else m_size v * 2) of
        Returned w1 new_data \<Rightarrow>
          (if throws E (clock w1) then Threw (RawMemory_dtor (tick w1) new_data) v
           else
             (case CopyOrMovePartData E (tick w1) v
                     (new_data\<lparr>m_buffer := (m_buffer new_data)[pos := Some x]\<rparr>) pos of
                Returned w2 (v', nd) \<Rightarrow>
                  Emplace_return (RawMemory_dtor w2 nd) (v'\<lparr>m_size := m_size v' + 1\<rparr>) pos
              | Threw w2 (v', nd) \<Rightarrow> Threw (RawMemory_dtor w2 nd) v'
              | Aborted \<Rightarrow> Aborted
              | Undefined \<Rightarrow> Undefined))
      | Threw w1 u \<Rightarrow> Threw w1 v
      | Aborted \<Rightarrow> Aborted
      | Undefined \<Rightarrow> Undefined)"
  using assms
  by (simp add: Emplace_def Let_def begin_pos_def end_pos_def Size_def Capacity_def)

lemma Emplace_at_end:
  assumes "pos = Size v" and "Size v < Capacity v"
  shows "Emplace E w v pos x =
     (if throws E (clock w) then Threw (tick w) v
      else
        Emplace_return (tick w)
          ((with_slots v ((slots_of v)[m_size v := Some x]))\<lparr>m_size := m_size v + 1\<rparr>) pos)"
  using assms
  by (simp add: Emplace_def Let_def begin_pos_def end_pos_def Size_def Capacity_def)

lemma Emplace_in_middle:
  assumes "pos < Size v" and "Size v < Capacity v"
  shows "Emplace E w v pos x =
     (if throws E (clock w) then Threw (tick w) v
      else
        (case uninitialized_move_n_within E (Suc (clock w)) (slots_of v)
                (end_pos v - 1) 1 (end_pos v) of
           Ok k buf \<Rightarrow>
             (case move_backward E k buf pos (end_pos v - 1) (end_pos v) of
                Ok k' buf' \<Rightarrow>
                  (if throws E k' then Threw (w\<lparr>clock := Suc k'\<rparr>) (with_slots v buf')
                   else
                     Emplace_return (w\<lparr>clock := Suc k'\<rparr>)
                       ((with_slots v (buf'[pos := Some x]))\<lparr>m_size := m_size v + 1\<rparr>) pos)
              | Exn k' buf' \<Rightarrow> Threw (w\<lparr>clock := k'\<rparr>) (with_slots v buf'))
         | Exn k buf \<Rightarrow> Threw (w\<lparr>clock := k\<rparr>) (with_slots v buf)))"
  using assms
  by (simp add: Emplace_def Let_def begin_pos_def end_pos_def Size_def Capacity_def)

lemma Emplace_return_Returned:
  "Emplace_return w v p = Returned w' (v', r) \<longleftrightarrow> p < Capacity v \<and> w' = w \<and> v' = v \<and> r = p"
  by (auto simp: Emplace_return_def RawMemory_at_def Capacity_def)

lemma umove_within_one:
  "uninitialized_move_n_within E k buf first 1 d = Ok k' buf' \<Longrightarrow>
   buf' = buf[d := buf ! first, first := map_option (moved_from E) (buf ! first)]"
  by (auto split: if_splits)


lemma Emplace_slots_at_capacity:
  assumes inv: "Vector_inv v" and p: "pos \<le> Size v" and full: "Size v = Capacity v"
    and run: "Emplace E w v pos x = Returned w' (v', r)"
  shows "Size v' = Size v + 1 \<and> r = pos \<and> length (slots_of v') = Capacity v' \<and>
    Size v < Capacity v' \<and> Capacity v' = max 1 (Capacity v * 2) \<and>
    (\<forall>i<pos. slots_of v' ! i = slots_of v ! i) \<and>
    slots_of v' ! pos = Some x \<and>
    (\<forall>i. pos \<le> i \<and> i < Size v \<longrightarrow> slots_of v' ! Suc i = slots_of v ! i) \<and>
    (\<forall>i. Size v < i \<and> i < Capacity v' \<longrightarrow> slots_of v' ! i = None)"
proof -
  from inv have len: "length (slots_of v) = Capacity v" "Size v \<le> Capacity v"
    by (simp_all add: Vector_inv_nth)
  let ?n = "if m_size v = 0 then 1 else m_size v * 2"
  from full have n: "?n = max 1 (Capacity v * 2)" "Size v < ?n"
    by (auto simp: Size_def)
  note eq = Emplace_at_capacity[OF p full, of E w x]
  from run obtain w1 nd where new: "RawMemory_live E w ?n = Returned w1 nd"
    unfolding eq by (cases "RawMemory_live E w ?n") simp_all
  from RawMemory_live_Returned[OF new]
  have nd: "nd = \<lparr>m_buffer = replicate ?n None, m_capacity = ?n\<rparr>" by simp
  let ?nd1 = "nd\<lparr>m_buffer := (m_buffer nd)[pos := Some x]\<rparr>"
  from run new have nt: "\<not> throws E (clock w1)"
    unfolding eq by (auto split: if_splits)
  with run new obtain w2 v1 nd' where
    cm: "CopyOrMovePartData E (tick w1) v ?nd1 pos = Returned w2 (v1, nd')"
    and ret: "Emplace_return (RawMemory_dtor w2 nd') (v1\<lparr>m_size := m_size v1 + 1\<rparr>) pos
                 = Returned w' (v', r)"
    unfolding eq
    by (cases "CopyOrMovePartData E (tick w1) v ?nd1 pos") (auto split: prod.splits)
  have nlen: "length (m_buffer ?nd1) = m_capacity ?nd1" "Size v < m_capacity ?nd1"
    using nd n by (simp_all add: Size_def)
  note C = CopyOrMovePartData_Returned[OF cm len nlen p]
  from ret have v': "v' = v1\<lparr>m_size := m_size v1 + 1\<rparr>" and r: "r = pos"
    unfolding Emplace_return_Returned by simp_all
  have sl: "slots_of v' = slots_of v1" and sz: "Size v' = Size v + 1"
    and cap: "Capacity v' = ?n"
    using v' C(1,2) nd by (simp_all add: slots_of_def Size_def Capacity_def)
  have pn: "pos < ?n" using p n by simp
  have a: "slots_of v' ! pos = Some x"
    using C(6) nd pn by (simp add: sl)
  have b: "\<forall>i. Size v < i \<and> i < Capacity v' \<longrightarrow> slots_of v' ! i = None"
  proof (intro allI impI)
    fix i assume "Size v < i \<and> i < Capacity v'"
    then have i: "Size v < i" "i < ?n" using cap by simp_all
    with C(7) nd have "slots_of v1 ! i = (replicate ?n None)[pos := Some x] ! i" by simp
    with i p show "slots_of v' ! i = None" by (simp add: sl)
  qed
  have c: "length (slots_of v') = Capacity v'" using C(3) nd cap by (simp add: sl)
  have d: "\<forall>i<pos. slots_of v' ! i = slots_of v ! i" using C(4) by (simp add: sl)
  have e: "\<forall>i. pos \<le> i \<and> i < Size v \<longrightarrow> slots_of v' ! Suc i = slots_of v ! i"
    using C(5) by (simp add: sl)
  have f: "Size v < Capacity v'" "Capacity v' = max 1 (Capacity v * 2)"
    using cap n by simp_all
  from sz r c f d a e b show ?thesis by (intro conjI)
qed

lemma Emplace_slots_at_end:
  assumes inv: "Vector_inv v" and p: "pos = Size v" and spare: "Size v < Capacity v"
    and run: "Emplace E w v pos x = Returned w' (v', r)"
  shows "Size v' = Size v + 1 \<and> r = pos \<and> length (slots_of v') = Capacity v' \<and>
    Size v < Capacity v' \<and> Capacity v' = Capacity v \<and>
    (\<forall>i<pos. slots_of v' ! i = slots_of v ! i) \<and>
    slots_of v' ! pos = Some x \<and>
    (\<forall>i. pos \<le> i \<and> i < Size v \<longrightarrow> slots_of v' ! Suc i = slots_of v ! i) \<and>
    (\<forall>i. Size v < i \<and> i < Capacity v' \<longrightarrow> slots_of v' ! i = None)"
proof -
  from inv have len: "length (slots_of v) = Capacity v" "Size v \<le> Capacity v"
    and un: "\<forall>i. Size v \<le> i \<and> i < Capacity v \<longrightarrow> slots_of v ! i = None"
    by (simp_all add: Vector_inv_nth)
  note eq = Emplace_at_end[OF p spare, of E w x]
  from run have nt: "\<not> throws E (clock w)" unfolding eq by (auto split: if_splits)
  with run have "Emplace_return (tick w)
      ((with_slots v ((slots_of v)[m_size v := Some x]))\<lparr>m_size := m_size v + 1\<rparr>) pos
       = Returned w' (v', r)"
    unfolding eq by simp
  then have
    v': "v' = (with_slots v ((slots_of v)[m_size v := Some x]))\<lparr>m_size := m_size v + 1\<rparr>"
    and r: "r = pos"
    unfolding Emplace_return_Returned by simp_all
  have sl: "slots_of v' = (slots_of v)[Size v := Some x]" and sz: "Size v' = Size v + 1"
    and cap: "Capacity v' = Capacity v"
    using v' by (simp_all add: slots_of_def with_slots_def Size_def Capacity_def)
  have a: "slots_of v' ! pos = Some x" using p spare len by (simp add: sl)
  have b: "\<forall>i. Size v < i \<and> i < Capacity v' \<longrightarrow> slots_of v' ! i = None"
    using un cap by (simp add: sl)
  have c: "length (slots_of v') = Capacity v'" using len cap by (simp add: sl)
  have d: "\<forall>i<pos. slots_of v' ! i = slots_of v ! i" using p by (simp add: sl)
  have e: "\<forall>i. pos \<le> i \<and> i < Size v \<longrightarrow> slots_of v' ! Suc i = slots_of v ! i"
    using p by auto
  have f: "Size v < Capacity v'" using cap spare by simp
  from sz r c f cap d a e b show ?thesis by (intro conjI)
qed


lemma Emplace_slots_in_middle:
  assumes inv: "Vector_inv v" and mid: "pos < Size v" and spare: "Size v < Capacity v"
    and run: "Emplace E w v pos x = Returned w' (v', r)"
  shows "Size v' = Size v + 1 \<and> r = pos \<and> length (slots_of v') = Capacity v' \<and>
    Size v < Capacity v' \<and> Capacity v' = Capacity v \<and>
    (\<forall>i<pos. slots_of v' ! i = slots_of v ! i) \<and>
    slots_of v' ! pos = Some x \<and>
    (\<forall>i. pos \<le> i \<and> i < Size v \<longrightarrow> slots_of v' ! Suc i = slots_of v ! i) \<and>
    (\<forall>i. Size v < i \<and> i < Capacity v' \<longrightarrow> slots_of v' ! i = None)"
proof -
  from inv have len: "length (slots_of v) = Capacity v" "Size v \<le> Capacity v"
    and un: "\<forall>i. Size v \<le> i \<and> i < Capacity v \<longrightarrow> slots_of v ! i = None"
    by (simp_all add: Vector_inv_nth)
  let ?s = "Size v"
  let ?n = "?s - 1 - pos"
  let ?buf1 = "(slots_of v)[?s := slots_of v ! (?s - 1),
                 ?s - 1 := map_option (moved_from E) (slots_of v ! (?s - 1))]"
  note eq = Emplace_in_middle[OF mid spare, of E w x]
  from run have nt: "\<not> throws E (clock w)" unfolding eq by (auto split: if_splits)
  with run obtain k buf where
    um: "uninitialized_move_n_within E (Suc (clock w)) (slots_of v) (end_pos v - 1) 1 (end_pos v)
           = Ok k buf"
    unfolding eq
    by (cases "uninitialized_move_n_within E (Suc (clock w)) (slots_of v) (end_pos v - 1) 1
                 (end_pos v)") simp_all
  from umove_within_one[OF um] have buf: "buf = ?buf1"
    by (simp add: end_pos_def Size_def)
  from run nt um obtain k' buf' where
    mb: "move_backward E k buf pos (end_pos v - 1) (end_pos v) = Ok k' buf'"
    unfolding eq
    by (cases "move_backward E k buf pos (end_pos v - 1) (end_pos v)") simp_all
  from run nt um mb have nt': "\<not> throws E k'" unfolding eq by (auto split: if_splits)
  with run nt um mb have "Emplace_return (w\<lparr>clock := Suc k'\<rparr>)
       ((with_slots v (buf'[pos := Some x]))\<lparr>m_size := m_size v + 1\<rparr>) pos = Returned w' (v', r)"
    unfolding eq by simp
  then have v': "v' = (with_slots v (buf'[pos := Some x]))\<lparr>m_size := m_size v + 1\<rparr>"
    and r: "r = pos"
    unfolding Emplace_return_Returned by simp_all
  have s_eq: "?s = Suc (pos + ?n)" using mid by simp
  from mb buf have "move_backward_n E k ?buf1 pos ?n ?s = Ok k' buf'"
    by (simp add: move_backward_def end_pos_def Size_def)
  then have mb': "move_backward_n E k ?buf1 pos ?n (Suc (pos + ?n)) = Ok k' buf'"
    using s_eq by simp
  have bound: "pos + ?n < length ?buf1" using mid spare len by simp
  note M = move_backward_n_Ok[OF mb' bound]
  have sl: "slots_of v' = buf'[pos := Some x]" and sz: "Size v' = Size v + 1"
    and cap: "Capacity v' = Capacity v"
    using v' by (simp_all add: slots_of_def with_slots_def Size_def Capacity_def)
  have lb: "length buf' = Capacity v" using M len by simp
  have keep: "\<forall>i<pos. slots_of v' ! i = slots_of v ! i"
  proof (intro allI impI)
    fix i assume i: "i < pos"
    then have "i < length ?buf1" using mid spare len by simp
    with M i have "buf' ! i = ?buf1 ! i" by blast
    also have "\<dots> = slots_of v ! i" using i mid by simp
    finally show "slots_of v' ! i = slots_of v ! i" using i by (simp add: sl)
  qed
  have new: "slots_of v' ! pos = Some x"
    using lb mid spare by (simp add: sl)
  have shift: "\<forall>i. pos \<le> i \<and> i < Size v \<longrightarrow> slots_of v' ! Suc i = slots_of v ! i"
  proof (intro allI impI)
    fix i assume "pos \<le> i \<and> i < Size v"
    then have i: "pos \<le> i" "i < Size v" by simp_all
    show "slots_of v' ! Suc i = slots_of v ! i"
    proof (cases "i = ?s - 1")
      case True
      then have "pos + ?n < Suc i" "Suc i < length ?buf1" "Suc i = ?s"
        using mid spare len by simp_all
      with M have "buf' ! Suc i = ?buf1 ! Suc i" by blast
      also have "\<dots> = slots_of v ! i" using True mid spare len by simp
      finally show ?thesis using i by (simp add: sl)
    next
      case False
      with i have "i - pos < ?n" by simp
      with M have "buf' ! Suc (pos + (i - pos)) = ?buf1 ! (pos + (i - pos))" by blast
      with i have "buf' ! Suc i = ?buf1 ! i" by simp
      also have "\<dots> = slots_of v ! i" using False i by simp
      finally show ?thesis using i by (simp add: sl)
    qed
  qed
  have rest: "\<forall>i. Size v < i \<and> i < Capacity v' \<longrightarrow> slots_of v' ! i = None"
  proof (intro allI impI)
    fix i assume "Size v < i \<and> i < Capacity v'"
    then have i: "Size v < i" "i < Capacity v" using cap by simp_all
    then have "pos + ?n < i" "i < length ?buf1" using mid len by simp_all
    with M have "buf' ! i = ?buf1 ! i" by blast
    also have "\<dots> = None" using i un by simp
    finally show "slots_of v' ! i = None" using i mid by (simp add: sl)
  qed
  have c: "length (slots_of v') = Capacity v'" using lb cap by (simp add: sl)
  have f: "Size v < Capacity v'" using cap spare by simp
  from sz r c f cap keep new shift rest show ?thesis by (intro conjI)
qed


lemma Emplace_slots:
  assumes inv: "Vector_inv v" and p: "pos \<le> Size v"
    and run: "Emplace E w v pos x = Returned w' (v', r)"
  shows "Size v' = Size v + 1 \<and> r = pos \<and> length (slots_of v') = Capacity v' \<and>
    Size v < Capacity v' \<and>
    (\<forall>i<pos. slots_of v' ! i = slots_of v ! i) \<and>
    slots_of v' ! pos = Some x \<and>
    (\<forall>i. pos \<le> i \<and> i < Size v \<longrightarrow> slots_of v' ! Suc i = slots_of v ! i) \<and>
    (\<forall>i. Size v < i \<and> i < Capacity v' \<longrightarrow> slots_of v' ! i = None)"
proof -
  from inv have le: "Size v \<le> Capacity v" by (simp add: Vector_inv_nth)
  consider "Size v = Capacity v" | "Size v < Capacity v" "pos = Size v"
    | "Size v < Capacity v" "pos < Size v"
    using le p by linarith
  then show ?thesis
  proof cases
    case 1
    from Emplace_slots_at_capacity[OF inv p 1 run] show ?thesis by simp
  next
    case 2
    from Emplace_slots_at_end[OF inv 2(2) 2(1) run] show ?thesis by simp
  next
    case 3
    from Emplace_slots_in_middle[OF inv 3(2) 3(1) run] show ?thesis by simp
  qed
qed

lemma Emplace_Returned:
  assumes inv: "Vector_inv v" and p: "pos \<le> Size v"
    and run: "Emplace E w v pos x = Returned w' (v', r)"
  shows "Size v' = Size v + 1" "r = pos" "slots_of v' ! pos = Some x"
    "elements v' = take pos (elements v) @ [x] @ drop pos (elements v)"
    "Vector_inv v'"
proof -
  note S = Emplace_slots[OF inv p run]
  from inv have len: "length (slots_of v) = Capacity v" "Size v \<le> Capacity v"
    by (simp_all add: Vector_inv_nth)
  from S show sz: "Size v' = Size v + 1" and "r = pos" and new: "slots_of v' ! pos = Some x"
    by simp_all
  from S have l': "length (slots_of v') = Capacity v'" and c: "Size v < Capacity v'"
    and keep: "\<forall>i<pos. slots_of v' ! i = slots_of v ! i"
    and shift: "\<forall>i. pos \<le> i \<and> i < Size v \<longrightarrow> slots_of v' ! Suc i = slots_of v ! i"
    and rest: "\<forall>i. Size v < i \<and> i < Capacity v' \<longrightarrow> slots_of v' ! i = None"
    by simp_all
  have "Size v < length (slots_of v')" "Size v \<le> length (slots_of v)"
    using l' c len by simp_all
  from elements_insertI[OF sz this p keep new shift]
  show "elements v' = take pos (elements v) @ [x] @ drop pos (elements v)" .
  from Vector_inv_insertI[OF inv sz l' c p keep new shift rest]
  show "Vector_inv v'" .
qed

lemma CopyOrMovePartData_Returned_sizes:
  assumes "CopyOrMovePartData E w v nd pos = Returned w' (v', nd')"
  shows "m_size v' = m_size v \<and> m_capacity (m_data v') = m_capacity nd"
proof (cases "is_nothrow_move_constructible E \<or> \<not> is_copy_constructible E")
  case True
  with assms obtain w1 v1 nd1 where
    "swap_and_destroy w1 v1 nd1 = Returned w' (v', nd')" "m_size v1 = m_size v"
    "m_capacity nd1 = m_capacity nd"
    unfolding CopyOrMovePartData_def
    by (auto simp: with_slots_def split: res.splits prod.splits)
  then show ?thesis
    by (auto simp: swap_and_destroy_def RawMemory_Swap_def)
next
  case False
  with assms obtain w1 nd1 where
    "swap_and_destroy w1 v nd1 = Returned w' (v', nd')" "m_capacity nd1 = m_capacity nd"
    unfolding CopyOrMovePartData_def
    by (auto split: res.splits prod.splits)
  then show ?thesis
    by (auto simp: swap_and_destroy_def RawMemory_Swap_def)
qed

lemma Emplace_nothrow:
  assumes nt: "\<forall>j. \<not> throws E j" and p: "pos \<le> Size v" and le: "Size v \<le> Capacity v"
  shows "\<exists>w' v' r. Emplace E w v pos x = Returned w' (v', r)"
proof -
  consider "Size v = Capacity v" | "Size v < Capacity v" "pos = Size v"
    | "Size v < Capacity v" "pos < Size v"
    using le p by linarith
  then show ?thesis
  proof cases
    case 1
    let ?n = "if m_size v = 0 then 1 else m_size v * 2"
    from RawMemory_live_nothrow[OF nt] obtain w1 where
      new: "RawMemory_live E w ?n = Returned w1 \<lparr>m_buffer = replicate ?n None, m_capacity = ?n\<rparr>"
      by blast
    let ?nd1 = "\<lparr>m_buffer = (replicate ?n None)[pos := Some x], m_capacity = ?n\<rparr>"
    from CopyOrMovePartData_nothrow[OF nt] obtain w2 rr where
      cm: "CopyOrMovePartData E (tick w1) v ?nd1 pos = Returned w2 rr" by blast
    obtain v1 nd' where rr: "rr = (v1, nd')" by (cases rr)
    from CopyOrMovePartData_Returned_sizes[OF cm[unfolded rr]]
    have "m_size v1 = m_size v" "m_capacity (m_data v1) = ?n" by simp_all
    moreover have "pos < ?n" using p 1 by (auto simp: Size_def)
    ultimately have "Emplace_return (RawMemory_dtor w2 nd') (v1\<lparr>m_size := m_size v1 + 1\<rparr>) pos
        = Returned (RawMemory_dtor w2 nd') (v1\<lparr>m_size := m_size v1 + 1\<rparr>, pos)"
      by (simp add: Emplace_return_Returned Capacity_def)
    with new cm rr nt show ?thesis
      unfolding Emplace_at_capacity[OF p 1] by simp
  next
    case 2
    then have "pos < Capacity ((with_slots v ((slots_of v)[m_size v := Some x]))
                 \<lparr>m_size := m_size v + 1\<rparr>)"
      by (simp add: Capacity_def with_slots_def)
    then show ?thesis
      unfolding Emplace_at_end[OF 2(2) 2(1)] using nt
      by (simp add: Emplace_return_def RawMemory_at_def Capacity_def)
  next
    case 3
    have um: "uninitialized_move_n_within E (Suc (clock w)) (slots_of v) (end_pos v - 1) 1
        (end_pos v) = Ok (move_ctor_clock E (Suc (clock w)))
           ((slots_of v)[end_pos v := slots_of v ! (end_pos v - 1),
              end_pos v - 1 := map_option (moved_from E) (slots_of v ! (end_pos v - 1))])"
      using nt by (simp add: move_ctor_throws_def)
    from move_backward_n_nothrow[OF nt] obtain k' b' where
      mb: "move_backward E (move_ctor_clock E (Suc (clock w)))
             ((slots_of v)[end_pos v := slots_of v ! (end_pos v - 1),
                end_pos v - 1 := map_option (moved_from E) (slots_of v ! (end_pos v - 1))])
             pos (end_pos v - 1) (end_pos v) = Ok k' b'"
      unfolding move_backward_def by blast
    have "pos < Capacity ((with_slots v (b'[pos := Some x]))\<lparr>m_size := m_size v + 1\<rparr>)"
      using 3 by (simp add: Capacity_def with_slots_def)
    then show ?thesis
      unfolding Emplace_in_middle[OF 3(2) 3(1)] using nt um mb
      by (simp add: Emplace_return_def RawMemory_at_def Capacity_def)
  qed
qed

text \<open>
  C5. For a container that satisfies the representation invariant and a position
  \<open>pos \<le> size\<close>: whenever \<^verbatim>\<open>Insert(pos, x)\<close> returns and \<^verbatim>\<open>Erase\<close> at the position
  it returned (which is \<open>pos\<close>) returns, the sequence of element values and the
  size are those before the insertion. When nothing throws, both calls return.
\<close>

theorem Insert_Erase_roundtrip:
  assumes "Vector_inv v" and "pos \<le> Size v"
  shows "(\<forall>w1 v1 r1 w2 v2 r2.
        Insert E w v pos x = Returned w1 (v1, r1) \<longrightarrow>
        Erase E w1 v1 r1 = Returned w2 (v2, r2) \<longrightarrow>
        r1 = pos \<and> elements v1 = take pos (elements v) @ [x] @ drop pos (elements v) \<and>
        elements v2 = elements v \<and> Size v2 = Size v) \<and>
    ((\<forall>k. \<not> throws E k) \<longrightarrow>
       (\<exists>w1 v1 r1 w2 v2 r2. Insert E w v pos x = Returned w1 (v1, r1) \<and>
          Erase E w1 v1 r1 = Returned w2 (v2, r2)))"
proof -
  from assms(1) have len: "length (slots_of v) = Capacity v" "Size v \<le> Capacity v"
    by (simp_all add: Vector_inv_nth)
  have a: "\<forall>w1 v1 r1 w2 v2 r2.
        Insert E w v pos x = Returned w1 (v1, r1) \<longrightarrow>
        Erase E w1 v1 r1 = Returned w2 (v2, r2) \<longrightarrow>
        r1 = pos \<and> elements v1 = take pos (elements v) @ [x] @ drop pos (elements v) \<and>
        elements v2 = elements v \<and> Size v2 = Size v"
  proof (intro allI impI)
    fix w1 v1 r1 w2 v2 r2
    assume ins: "Insert E w v pos x = Returned w1 (v1, r1)"
      and er: "Erase E w1 v1 r1 = Returned w2 (v2, r2)"
    from ins have run: "Emplace E w v pos x = Returned w1 (v1, r1)" by (simp add: Insert_def)
    note I = Emplace_Returned[OF assms run]
    from I(1,2) assms(2) have p1: "r1 < Size v1" by simp
    note R = Erase_Returned[OF I(5) p1 er]
    have lp: "pos \<le> length (elements v)" using assms(2) len by (simp add: length_elements)
    have "elements v2 = take r1 (elements v1) @ drop (Suc r1) (elements v1)" by (rule R(9))
    also have "\<dots> = elements v" using I(2,4) lp by (simp add: min_def)
    finally have "elements v2 = elements v" .
    moreover have "Size v2 = Size v" using R(1) I(1) by simp
    ultimately show "r1 = pos \<and>
        elements v1 = take pos (elements v) @ [x] @ drop pos (elements v) \<and>
        elements v2 = elements v \<and> Size v2 = Size v"
      using I(2,4) by simp
  qed
  have b: "(\<forall>k. \<not> throws E k) \<longrightarrow>
       (\<exists>w1 v1 r1 w2 v2 r2. Insert E w v pos x = Returned w1 (v1, r1) \<and>
          Erase E w1 v1 r1 = Returned w2 (v2, r2))"
  proof
    assume nt: "\<forall>k. \<not> throws E k"
    from Emplace_nothrow[OF nt assms(2) len(2)] obtain w1 v1 r1 where
      run: "Emplace E w v pos x = Returned w1 (v1, r1)" by blast
    note I = Emplace_Returned[OF assms run]
    from I(1,2) assms(2) have p1: "r1 < Size v1" by simp
    from Erase_nothrow[OF nt p1] obtain w2 v2 r2 where
      "Erase E w1 v1 r1 = Returned w2 (v2, r2)" by blast
    with run show "\<exists>w1 v1 r1 w2 v2 r2. Insert E w v pos x = Returned w1 (v1, r1) \<and>
          Erase E w1 v1 r1 = Returned w2 (v2, r2)"
      unfolding Insert_def by blast
  qed
  from a b show ?thesis by (intro conjI)
qed


theorem Insert_Erase_roundtrip_witness:
  "Vector_inv vec789 \<and> 1 \<le> Size vec789 \<and> Vector_inv vec78 \<and> 2 \<le> Size vec78 \<and>
   (\<exists>w1 v1 w2 v2 r2. Insert movable_elem world0 vec789 1 5 = Returned w1 (v1, 1) \<and>
      elements v1 = [7, 5, 8, 9] \<and>
      Erase movable_elem w1 v1 1 = Returned w2 (v2, r2) \<and> elements v2 = [7, 8, 9]) \<and>
   (\<exists>w1 v1 w2 v2 r2. Insert (throwing_elem 9) world0 vec78 2 5 = Returned w1 (v1, 2) \<and>
      elements v1 = [7, 8, 5] \<and>
      Erase (throwing_elem 9) w1 v1 2 = Returned w2 (v2, r2) \<and> elements v2 = [7, 8])"
proof -
  have inv: "Vector_inv vec789" "Vector_inv vec78"
    by (simp_all add: Vector_inv_def vec789_def vec78_def slots_of_def Size_def Capacity_def)
  have nt: "\<forall>k. \<not> throws movable_elem k" by (simp add: movable_elem_def)
  have sz: "1 \<le> Size vec789" "2 \<le> Size vec78"
    by (simp_all add: vec789_def vec78_def Size_def)
  have el: "elements vec789 = [7, 8, 9]" "elements vec78 = [7, 8]"
    by (simp_all add: elements_def vec789_def vec78_def Size_def slots_of_def)
  note T = Insert_Erase_roundtrip[OF inv(1) sz(1), of movable_elem world0 5]
  from T nt obtain w1 v1 r1 w2 v2 r2 where
    run: "Insert movable_elem world0 vec789 1 5 = Returned w1 (v1, r1)"
      "Erase movable_elem w1 v1 r1 = Returned w2 (v2, r2)" by blast
  with T have "r1 = 1 \<and> elements v1 = take 1 (elements vec789) @ [5] @ drop 1 (elements vec789) \<and>
      elements v2 = elements vec789"
    by blast
  with el have "r1 = 1 \<and> elements v1 = [7, 5, 8, 9] \<and> elements v2 = [7, 8, 9]" by simp
  with run have a: "\<exists>w1 v1 w2 v2 r2. Insert movable_elem world0 vec789 1 5 = Returned w1 (v1, 1) \<and>
      elements v1 = [7, 5, 8, 9] \<and>
      Erase movable_elem w1 v1 1 = Returned w2 (v2, r2) \<and> elements v2 = [7, 8, 9]"
    by blast
  let ?v1 = "\<lparr>m_data = \<lparr>m_buffer = [Some 7, Some 8, Some 5, None], m_capacity = 4\<rparr>,
              m_size = 3\<rparr> :: int Vector"
  let ?v2 = "\<lparr>m_data = \<lparr>m_buffer = [Some 7, Some 8, None, None], m_capacity = 4\<rparr>,
              m_size = 2\<rparr> :: int Vector"
  have i2: "Insert (throwing_elem 9) world0 vec78 2 5 = Returned \<lparr>clock = 4, leaked = []\<rparr> (?v1, 2)"
    by code_simp
  have e2: "Erase (throwing_elem 9) \<lparr>clock = 4, leaked = []\<rparr> ?v1 2
              = Returned \<lparr>clock = 4, leaked = []\<rparr> (?v2, 2)"
    by code_simp
  note T2 = Insert_Erase_roundtrip[OF inv(2) sz(2), of "throwing_elem 9" world0 5]
  from T2 i2 e2 have "elements ?v1 = take 2 (elements vec78) @ [5] @ drop 2 (elements vec78) \<and>
      elements ?v2 = elements vec78"
    by blast
  with el have "elements ?v1 = [7, 8, 5] \<and> elements ?v2 = [7, 8]" by simp
  with i2 e2 have b: "\<exists>w1 v1 w2 v2 r2.
      Insert (throwing_elem 9) world0 vec78 2 5 = Returned w1 (v1, 2) \<and>
      elements v1 = [7, 8, 5] \<and>
      Erase (throwing_elem 9) w1 v1 2 = Returned w2 (v2, r2) \<and> elements v2 = [7, 8]"
    by blast
  from inv(1) sz(1) inv(2) sz(2) a b show ?thesis by (intro conjI)
qed

section \<open>The invariant \<open>0 \<le> size \<le> capacity\<close> across all operations\<close>

lemma CopyOrMoveData_shape:
  "(\<exists>w' v' nd'. CopyOrMoveData E w v nd = Returned w' (v', nd') \<and>
      m_size v' = m_size v \<and> m_capacity (m_data v') = m_capacity nd) \<or>
   (\<exists>w' v' nd'. CopyOrMoveData E w v nd = Threw w' (v', nd') \<and>
      m_size v' = m_size v \<and> m_capacity (m_data v') = m_capacity (m_data v))"
  by (auto simp: CopyOrMoveData_def swap_and_destroy_def RawMemory_Swap_def with_slots_def
           split: res.splits prod.splits)

lemma CopyOrMovePartData_shape:
  "(\<exists>w' v' nd'. CopyOrMovePartData E w v nd pos = Returned w' (v', nd') \<and>
      m_size v' = m_size v \<and> m_capacity (m_data v') = m_capacity nd) \<or>
   (\<exists>w' v' nd'. CopyOrMovePartData E w v nd pos = Threw w' (v', nd') \<and>
      m_size v' = m_size v \<and> m_capacity (m_data v') = m_capacity (m_data v))"
  by (auto simp: CopyOrMovePartData_def swap_and_destroy_def RawMemory_Swap_def with_slots_def
           split: res.splits prod.splits)

lemma Reserve_shape:
  assumes le: "m_size v \<le> m_capacity (m_data v)"
    and fits: "m_capacity (m_data v) < n \<longrightarrow> request_fits E n"
  shows "(\<exists>w' v'. Reserve E w v n = Returned w' v' \<and> m_size v' = m_size v \<and>
      n \<le> m_capacity (m_data v') \<and> m_capacity (m_data v) \<le> m_capacity (m_data v')) \<or>
   (\<exists>w' v'. Reserve E w v n = Threw w' v' \<and> m_size v' = m_size v \<and>
      m_capacity (m_data v') = m_capacity (m_data v))"
proof (cases "n \<le> m_capacity (m_data v)")
  case True
  then show ?thesis by (simp add: Reserve_def)
next
  case False
  then have gt: "m_capacity (m_data v) < n" by simp
  with fits have f: "request_fits E n" by simp
  note eq = Reserve_fits[OF f le gt, of w]
  from RawMemory_live_cases[of E w n] show ?thesis
  proof (elim disjE exE)
    fix w1 assume new: "RawMemory_live E w n = Returned w1 \<lparr>m_buffer = replicate n None, m_capacity = n\<rparr>"
    from CopyOrMoveData_shape[of E w1 v "\<lparr>m_buffer = replicate n None, m_capacity = n\<rparr>"]
    show ?thesis using new False unfolding eq by auto
  next
    fix w1 assume "RawMemory_live E w n = Threw w1 ()"
    then show ?thesis unfolding eq by simp
  qed
qed

lemma stays_Returned: "list_all I (fr r) \<Longrightarrow> stays I fr fe (Returned w r)"
  by (simp add: stays_def)

lemma stays_Threw: "list_all I (fe e) \<Longrightarrow> stays I fr fe (Threw w e)"
  by (simp add: stays_def)

lemma Reserve_stays:
  assumes "size_le_capacity v" and "Capacity v < n \<longrightarrow> request_fits E n"
  shows "stays size_le_capacity (\<lambda>r. [r]) (\<lambda>e. [e]) (Reserve E w v n)"
proof -
  from assms have le: "m_size v \<le> m_capacity (m_data v)"
    and fits: "m_capacity (m_data v) < n \<longrightarrow> request_fits E n"
    by (simp_all add: size_le_capacity_def Size_def Capacity_def)
  from Reserve_shape[OF le fits, of w] le show ?thesis
    by (auto simp: stays_def size_le_capacity_def Size_def Capacity_def)
qed

lemma Resize_stays:
  assumes inv: "Vector_inv v" and fits: "Capacity v < n \<longrightarrow> request_fits E n"
  shows "stays size_le_capacity (\<lambda>r. [r]) (\<lambda>e. [e]) (Resize E w v n)"
proof -
  from inv have le: "m_size v \<le> m_capacity (m_data v)"
    by (simp add: Vector_inv_nth Size_def Capacity_def)
  from fits have fits': "m_capacity (m_data v) < n \<longrightarrow> request_fits E n"
    by (simp add: Capacity_def)
  consider "n = m_size v" | "n < m_size v" | "m_size v < n" by linarith
  then show ?thesis
  proof cases
    case 1
    with le show ?thesis
      by (simp add: Resize_def stays_def size_le_capacity_def Size_def Capacity_def)
  next
    case 2
    with le show ?thesis
      by (simp add: Resize_def stays_def size_le_capacity_def Size_def Capacity_def with_slots_def)
  next
    case 3
    from Reserve_shape[OF le fits', of w] show ?thesis
    proof (elim disjE exE conjE)
      fix w1 v1
      assume res: "Reserve E w v n = Returned w1 v1" and s: "m_size v1 = m_size v"
        and c: "n \<le> m_capacity (m_data v1)"
      note R = Reserve_Returned_any[OF inv fits res]
      from R(1,5) have guard: "\<not> length (slots_of v1) < n" by (simp add: Vector_inv_nth)
      show ?thesis
        using 3 res s c guard
        by (cases "uninitialized_value_construct_n E (clock w1) (slots_of v1) (m_size v1)
                     (n - m_size v1)")
           (simp_all add: Resize_def stays_def size_le_capacity_def Size_def Capacity_def
              with_slots_def)
    next
      fix w1 v1
      assume "Reserve E w v n = Threw w1 v1" "m_size v1 = m_size v"
        "m_capacity (m_data v1) = m_capacity (m_data v)"
      with 3 le show ?thesis
        by (simp add: Resize_def stays_def size_le_capacity_def Size_def Capacity_def)
    qed
  qed
qed

lemma EmplaceBack_stays:
  assumes "size_le_capacity v"
  shows "stays size_le_capacity (\<lambda>(v', r). [v']) (\<lambda>e. [e]) (EmplaceBack E w v x)"
proof (cases "m_size v = m_capacity (m_data v)")
  case True
  let ?n = "if m_size v = 0 then 1 else m_size v * 2"
  have n: "m_size v < ?n" by simp
  from RawMemory_live_cases[of E w ?n] show ?thesis
  proof (elim disjE exE)
    fix w1
    assume new: "RawMemory_live E w ?n = Returned w1 \<lparr>m_buffer = replicate ?n None, m_capacity = ?n\<rparr>"
    show ?thesis
    proof (cases "throws E (clock w1)")
      case thr: True
      with new True assms show ?thesis
        by (simp add: EmplaceBack_def stays_def Capacity_def)
    next
      case False
      let ?nd1 = "\<lparr>m_buffer = (replicate ?n None)[m_size v := Some x], m_capacity = ?n\<rparr>"
      from CopyOrMoveData_shape[of E "tick w1" v ?nd1] show ?thesis
      proof (elim disjE exE conjE)
        fix w2 v1 nd'
        assume cm: "CopyOrMoveData E (tick w1) v ?nd1 = Returned w2 (v1, nd')"
          and s: "m_size v1 = m_size v" and c: "m_capacity (m_data v1) = m_capacity ?nd1"
        have "EmplaceBack_return (RawMemory_dtor w2 nd') (v1\<lparr>m_size := m_size v1 + 1\<rparr>)
            = Returned (RawMemory_dtor w2 nd') (v1\<lparr>m_size := m_size v1 + 1\<rparr>, m_size v1)"
          using s c n by (simp add: EmplaceBack_return_def RawMemory_at_def)
        with new False cm True s c n show ?thesis
          by (simp add: EmplaceBack_def stays_def Capacity_def size_le_capacity_def Size_def)
      next
        fix w2 v1 nd'
        assume "CopyOrMoveData E (tick w1) v ?nd1 = Threw w2 (v1, nd')"
          "m_size v1 = m_size v" "m_capacity (m_data v1) = m_capacity (m_data v)"
        with new False True assms show ?thesis
          by (simp add: EmplaceBack_def stays_def Capacity_def size_le_capacity_def Size_def)
      qed
    qed
  next
    fix w1 assume "RawMemory_live E w ?n = Threw w1 ()"
    with True assms show ?thesis
      by (simp add: EmplaceBack_def stays_def Capacity_def)
  qed
next
  case False
  with assms have lt: "m_size v < m_capacity (m_data v)"
    by (simp add: size_le_capacity_def Size_def Capacity_def)
  then show ?thesis
    using assms
    by (simp add: EmplaceBack_def stays_def Capacity_def size_le_capacity_def Size_def
          EmplaceBack_return_def RawMemory_at_def with_slots_def)
qed

lemma PushBack_stays:
  assumes "size_le_capacity v"
  shows "stays size_le_capacity (\<lambda>r. [r]) (\<lambda>e. [e]) (PushBack E w v x)"
  using EmplaceBack_stays[OF assms, of E w x]
  by (auto simp: PushBack_def stays_def split: outcome.splits)


lemma Emplace_stays:
  assumes I: "size_le_capacity v" and p: "pos \<le> Size v"
  shows "stays size_le_capacity (\<lambda>(v', r). [v']) (\<lambda>e. [e]) (Emplace E w v pos x)"
proof -
  from I have le: "Size v \<le> Capacity v" by (simp add: size_le_capacity_def)
  consider "Size v = Capacity v" | "Size v < Capacity v" "pos = Size v"
    | "Size v < Capacity v" "pos < Size v"
    using le p by linarith
  then show ?thesis
  proof cases
    case 1
    let ?n = "if m_size v = 0 then 1 else m_size v * 2"
    have n: "m_size v < ?n" by simp
    note eq = Emplace_at_capacity[OF p 1, of E w x]
    from RawMemory_live_cases[of E w ?n] show ?thesis
    proof (elim disjE exE)
      fix w1
      assume new: "RawMemory_live E w ?n =
                     Returned w1 \<lparr>m_buffer = replicate ?n None, m_capacity = ?n\<rparr>"
      show ?thesis
      proof (cases "throws E (clock w1)")
        case True
        with new I show ?thesis unfolding eq by (simp add: stays_def)
      next
        case False
        let ?nd1 = "\<lparr>m_buffer = (replicate ?n None)[pos := Some x], m_capacity = ?n\<rparr>"
        from CopyOrMovePartData_shape[of E "tick w1" v ?nd1 pos] show ?thesis
        proof (elim disjE exE conjE)
          fix w2 v1 nd'
          assume cm: "CopyOrMovePartData E (tick w1) v ?nd1 pos = Returned w2 (v1, nd')"
            and s: "m_size v1 = m_size v" and c: "m_capacity (m_data v1) = m_capacity ?nd1"
          have "pos < ?n" using p n by (simp add: Size_def)
          then have "Emplace_return (RawMemory_dtor w2 nd') (v1\<lparr>m_size := m_size v1 + 1\<rparr>) pos
              = Returned (RawMemory_dtor w2 nd') (v1\<lparr>m_size := m_size v1 + 1\<rparr>, pos)"
            using c by (simp add: Emplace_return_Returned Capacity_def)
          with new False cm s c n show ?thesis
            unfolding eq by (simp add: stays_def Capacity_def size_le_capacity_def Size_def)
        next
          fix w2 v1 nd'
          assume "CopyOrMovePartData E (tick w1) v ?nd1 pos = Threw w2 (v1, nd')"
            "m_size v1 = m_size v" "m_capacity (m_data v1) = m_capacity (m_data v)"
          with new False I show ?thesis
            unfolding eq by (simp add: stays_def Capacity_def size_le_capacity_def Size_def)
        qed
      qed
    next
      fix w1 assume "RawMemory_live E w ?n = Threw w1 ()"
      with I show ?thesis unfolding eq by (simp add: stays_def)
    qed
  next
    case 2
    then show ?thesis
      unfolding Emplace_at_end[OF 2(2) 2(1)] using I
      by (simp add: stays_def Emplace_return_def RawMemory_at_def Capacity_def
            size_le_capacity_def Size_def with_slots_def)
  next
    case 3
    note eq = Emplace_in_middle[OF 3(2) 3(1), of E w x]
    show ?thesis
    proof (cases "throws E (clock w)")
      case True
      with I show ?thesis unfolding eq by (simp add: stays_def)
    next
      case nt: False
      show ?thesis
      proof (cases "uninitialized_move_n_within E (Suc (clock w)) (slots_of v)
                      (end_pos v - 1) 1 (end_pos v)")
        case (Exn k buf)
        with nt I show ?thesis
          unfolding eq
          by (simp add: stays_def size_le_capacity_def Size_def Capacity_def with_slots_def)
      next
        case (Ok k buf)
        show ?thesis
        proof (cases "move_backward E k buf pos (end_pos v - 1) (end_pos v)")
          case (Exn k' buf')
          with nt Ok I show ?thesis
            unfolding eq
            by (simp add: stays_def size_le_capacity_def Size_def Capacity_def with_slots_def)
        next
          case mb: (Ok k' buf')
          from nt Ok mb I 3 show ?thesis
            unfolding eq
            by (simp add: stays_def size_le_capacity_def Size_def Capacity_def with_slots_def
                  Emplace_return_def RawMemory_at_def)
        qed
      qed
    qed
  qed
qed

text \<open>On a non-empty container \<^verbatim>\<open>Erase\<close> keeps the invariant wherever \<^verbatim>\<open>pos\<close> points.\<close>

lemma Erase_stays:
  assumes I: "size_le_capacity v" and p: "0 < Size v"
  shows "stays size_le_capacity (\<lambda>(v', r). [v']) (\<lambda>e. [e]) (Erase E w v pos)"
proof (cases "std_move E (clock w) (slots_of v) (pos + 1) (end_pos v) pos")
  case (Ok k buf)
  with I p show ?thesis
    by (auto simp: Erase_def stays_def size_le_capacity_def Size_def Capacity_def with_slots_def
          size_t_dec_def Let_def)
next
  case (Exn k buf)
  with I p show ?thesis
    by (simp add: Erase_def stays_def size_le_capacity_def Size_def Capacity_def with_slots_def)
qed

lemma PopBack_stays:
  assumes I: "size_le_capacity v" and p: "0 < Size v"
  shows "stays size_le_capacity (\<lambda>r. [r]) (\<lambda>e. [e]) (PopBack w v)"
  using assms
  by (simp add: PopBack_def stays_def size_le_capacity_def Size_def Capacity_def with_slots_def)

lemma Vector_sized_stays:
  assumes fits: "request_fits E n"
  shows "stays size_le_capacity (\<lambda>r. [r]) (\<lambda>e. []) (Vector_sized E w n)"
proof -
  from RawMemory_live_cases[of E w n] show ?thesis
  proof (elim disjE exE)
    fix w1
    assume new: "RawMemory_live E w n = Returned w1 \<lparr>m_buffer = replicate n None, m_capacity = n\<rparr>"
    then show ?thesis
      by (cases "uninitialized_value_construct_n E (clock w1) (replicate n None) 0 n")
         (simp_all add: Vector_sized_def RawMemory_new_fits[OF fits] stays_def
            size_le_capacity_def Size_def Capacity_def)
  next
    fix w1 assume "RawMemory_live E w n = Threw w1 ()"
    then show ?thesis by (simp add: Vector_sized_def RawMemory_new_fits[OF fits] stays_def)
  qed
qed

lemma Vector_copy_shape:
  "(\<exists>w' c. Vector_copy E w other = Returned w' c \<and> m_size c = m_size other \<and>
      m_capacity (m_data c) = m_size other) \<or>
   (\<exists>w'. Vector_copy E w other = Threw w' ())"
proof -
  let ?n = "m_size other"
  from RawMemory_live_cases[of E w ?n] show ?thesis
  proof (elim disjE exE)
    fix w1
    assume new: "RawMemory_live E w ?n = Returned w1 \<lparr>m_buffer = replicate ?n None, m_capacity = ?n\<rparr>"
    then show ?thesis
      by (cases "uninitialized_copy_n E (clock w1) (slots_of other) 0 ?n (replicate ?n None) 0")
         (simp_all add: Vector_copy_def)
  next
    fix w1 assume "RawMemory_live E w ?n = Threw w1 ()"
    then show ?thesis by (simp add: Vector_copy_def)
  qed
qed

lemma Vector_copy_stays:
  assumes "size_le_capacity other"
  shows "stays size_le_capacity (\<lambda>r. [r, other]) (\<lambda>e. [other]) (Vector_copy E w other)"
  using Vector_copy_shape[of E w other] assms
  by (auto simp: stays_def size_le_capacity_def Size_def Capacity_def)

lemma Vector_move_stays:
  assumes "size_le_capacity other"
  shows "case Vector_move w other of
           (w', new, other') \<Rightarrow> size_le_capacity new \<and> size_le_capacity other'"
  using assms
  by (simp add: Vector_move_def RawMemory_move_assign_def size_le_capacity_def Size_def
        Capacity_def)

lemma Swap_stays:
  assumes "size_le_capacity this" and "size_le_capacity other"
  shows "case Swap this other of
           (this', other') \<Rightarrow> size_le_capacity this' \<and> size_le_capacity other'"
  using assms
  by (simp add: Swap_def RawMemory_Swap_def size_le_capacity_def Size_def Capacity_def)

lemma move_assign_stays:
  assumes "size_le_capacity this" and "list_all size_le_capacity (others rhs)"
  shows "case move_assign w this rhs of
           (w', this', rhs') \<Rightarrow> size_le_capacity this' \<and> list_all size_le_capacity (others rhs')"
  using assms
  by (cases rhs)
     (simp_all add: RawMemory_move_assign_def size_le_capacity_def Size_def Capacity_def)

lemma copy_assign_stays:
  assumes I: "size_le_capacity this" and J: "list_all size_le_capacity (others rhs)"
  shows "stays size_le_capacity (\<lambda>r. r # others rhs) (\<lambda>e. e # others rhs)
           (copy_assign E w this rhs)"
proof (cases rhs)
  case This
  with I show ?thesis by (simp add: stays_def)
next
  case (Other u)
  with J have Ju: "size_le_capacity u" by simp
  consider "m_size u > m_capacity (m_data this)"
    | "m_size u \<le> m_capacity (m_data this)" "m_size this > m_size u"
    | "m_size u \<le> m_capacity (m_data this)" "m_size this \<le> m_size u"
    by linarith
  then show ?thesis
  proof cases
    case 1
    from Vector_copy_shape[of E w u] show ?thesis
    proof (elim disjE exE conjE)
      fix w1 c
      assume "Vector_copy E w u = Returned w1 c" "m_size c = m_size u"
        "m_capacity (m_data c) = m_size u"
      with 1 Other Ju show ?thesis
        by (simp add: stays_def Swap_def RawMemory_Swap_def size_le_capacity_def Size_def
              Capacity_def)
    next
      fix w1 assume "Vector_copy E w u = Threw w1 ()"
      with 1 Other Ju I show ?thesis by (simp add: stays_def)
    qed
  next
    case 2
    then show ?thesis
      using Other Ju I
      by (cases "copy_n E (clock w) (slots_of u) 0 (Size u) (slots_of this) 0")
         (simp_all add: stays_def size_le_capacity_def Size_def Capacity_def with_slots_def)
  next
    case 3
    show ?thesis
    proof (cases "copy_n E (clock w) (slots_of u) 0 (m_size this) (slots_of this) 0")
      case (Exn k buf)
      with 3 Other Ju I show ?thesis
        by (simp add: stays_def size_le_capacity_def Size_def Capacity_def with_slots_def)
    next
      case (Ok k buf)
      with 3 Other Ju I show ?thesis
        by (cases "uninitialized_copy_n E k (slots_of u) (m_size this)
                     (m_size u - m_size this) buf (m_size this)")
           (simp_all add: stays_def size_le_capacity_def Size_def Capacity_def with_slots_def)
    qed
  qed
qed


text \<open>
  Inside their contracts the operations keep \<open>0 \<le> size \<le> capacity\<close>. From
  containers that satisfy it, every public operation but \<^verbatim>\<open>Erase\<close> on an empty
  container returns or throws, and every container that exists afterwards
  satisfies it again, whichever allocation, construction or assignment throws. The
  conditions are: \<^verbatim>\<open>PopBack\<close> on a non-empty container, \<^verbatim>\<open>Insert\<close> and \<^verbatim>\<open>Emplace\<close> at
  a position \<open>\<le> size\<close>, a capacity or size whose byte count does not wrap where the
  call allocates for it, and, for \<^verbatim>\<open>Resize\<close>, the representation invariant.
\<close>

lemma size_le_capacity_in_contract:
  assumes "size_le_capacity v" and "size_le_capacity u"
    and "list_all size_le_capacity (others rhs)"
  shows "size_le_capacity (Vector_default :: 'a Vector) \<and>
    (request_fits E n \<longrightarrow>
       stays size_le_capacity (\<lambda>r. [r]) (\<lambda>e. []) (Vector_sized E w n)) \<and>
    stays size_le_capacity (\<lambda>r. [r, v]) (\<lambda>e. [v]) (Vector_copy E w v) \<and>
    (case Vector_move w v of
       (w', new, other') \<Rightarrow> size_le_capacity new \<and> size_le_capacity other') \<and>
    stays size_le_capacity (\<lambda>r. r # others rhs) (\<lambda>e. e # others rhs)
       (copy_assign E w v rhs) \<and>
    (case move_assign w v rhs of
       (w', this', rhs') \<Rightarrow> size_le_capacity this' \<and> list_all size_le_capacity (others rhs')) \<and>
    (case Swap v u of
       (this', other') \<Rightarrow> size_le_capacity this' \<and> size_le_capacity other') \<and>
    ((Capacity v < n \<longrightarrow> request_fits E n) \<longrightarrow>
       stays size_le_capacity (\<lambda>r. [r]) (\<lambda>e. [e]) (Reserve E w v n)) \<and>
    (Vector_inv v \<and> (Capacity v < n \<longrightarrow> request_fits E n) \<longrightarrow>
       stays size_le_capacity (\<lambda>r. [r]) (\<lambda>e. [e]) (Resize E w v n)) \<and>
    stays size_le_capacity (\<lambda>r. [r]) (\<lambda>e. [e]) (PushBack E w v x) \<and>
    stays size_le_capacity (\<lambda>(v', r). [v']) (\<lambda>e. [e]) (EmplaceBack E w v x) \<and>
    (0 < Size v \<longrightarrow> stays size_le_capacity (\<lambda>r. [r]) (\<lambda>e. [e]) (PopBack w v)) \<and>
    (pos \<le> Size v \<longrightarrow>
       stays size_le_capacity (\<lambda>(v', r). [v']) (\<lambda>e. [e]) (Insert E w v pos x) \<and>
       stays size_le_capacity (\<lambda>(v', r). [v']) (\<lambda>e. [e]) (Emplace E w v pos x)) \<and>
    (0 < Size v \<longrightarrow>
       stays size_le_capacity (\<lambda>(v', r). [v']) (\<lambda>e. [e]) (Erase E w v pos))"
proof -
  have d: "size_le_capacity (Vector_default :: 'a Vector)"
    by (simp add: Vector_default_def RawMemory_default_def size_le_capacity_def Size_def
          Capacity_def)
  have vs: "request_fits E n \<longrightarrow>
       stays size_le_capacity (\<lambda>r. [r]) (\<lambda>e. []) (Vector_sized E w n)"
    using Vector_sized_stays by blast
  have rs: "(Capacity v < n \<longrightarrow> request_fits E n) \<longrightarrow>
       stays size_le_capacity (\<lambda>r. [r]) (\<lambda>e. [e]) (Reserve E w v n)"
    using Reserve_stays[OF assms(1)] by blast
  have rz: "Vector_inv v \<and> (Capacity v < n \<longrightarrow> request_fits E n) \<longrightarrow>
       stays size_le_capacity (\<lambda>r. [r]) (\<lambda>e. [e]) (Resize E w v n)"
    using Resize_stays by blast
  have pop: "0 < Size v \<longrightarrow> stays size_le_capacity (\<lambda>r. [r]) (\<lambda>e. [e]) (PopBack w v)"
    using PopBack_stays[OF assms(1)] by blast
  have ins: "pos \<le> Size v \<longrightarrow>
       stays size_le_capacity (\<lambda>(v', r). [v']) (\<lambda>e. [e]) (Insert E w v pos x) \<and>
       stays size_le_capacity (\<lambda>(v', r). [v']) (\<lambda>e. [e]) (Emplace E w v pos x)"
    using Emplace_stays[OF assms(1)] by (simp add: Insert_def)
  have er: "0 < Size v \<longrightarrow>
       stays size_le_capacity (\<lambda>(v', r). [v']) (\<lambda>e. [e]) (Erase E w v pos)"
    using Erase_stays[OF assms(1)] by blast
  from d vs Vector_copy_stays[OF assms(1)] Vector_move_stays[OF assms(1)]
    copy_assign_stays[OF assms(1,3)] move_assign_stays[OF assms(1,3)]
    Swap_stays[OF assms(1,2)] rs rz
    PushBack_stays[OF assms(1)] EmplaceBack_stays[OF assms(1)] pop ins er
  show ?thesis by (intro conjI)
qed

text \<open>
  C1, at the input where the code breaks it. \<^verbatim>\<open>Erase\<close> has no check of its
  position, unlike \<^verbatim>\<open>PopBack\<close> and \<^verbatim>\<open>Emplace\<close> with their asserts. On an empty
  container, which satisfies \<open>0 \<le> size \<le> capacity\<close>, \<^verbatim>\<open>Erase(begin())\<close> moves
  nothing, decrements \<^verbatim>\<open>size_\<close> from 0 to the largest \<^verbatim>\<open>size_t\<close> and returns:
  the container it leaves has a size above its capacity. The same holds for an
  empty container with spare capacity. No exception and no assert is involved.
\<close>

theorem Erase_on_empty_breaks_size_le_capacity:
  "size_le_capacity (Vector_default :: int Vector) \<and>
   Erase int_elem world0 Vector_default 0
     = Returned world0 (\<lparr>m_data = RawMemory_default, m_size = SIZE_MAX\<rparr>, 0) \<and>
   \<not> size_le_capacity (\<lparr>m_data = RawMemory_default, m_size = SIZE_MAX\<rparr> :: int Vector) \<and>
   size_le_capacity
     (\<lparr>m_data = \<lparr>m_buffer = [None, None], m_capacity = 2\<rparr>, m_size = 0\<rparr> :: int Vector) \<and>
   Erase int_elem world0 \<lparr>m_data = \<lparr>m_buffer = [None, None], m_capacity = 2\<rparr>, m_size = 0\<rparr> 0
     = Returned world0
         (\<lparr>m_data = \<lparr>m_buffer = [None, None], m_capacity = 2\<rparr>, m_size = SIZE_MAX\<rparr>, 0) \<and>
   \<not> size_le_capacity
     (\<lparr>m_data = \<lparr>m_buffer = [None, None], m_capacity = 2\<rparr>, m_size = SIZE_MAX\<rparr> :: int Vector)"
proof -
  have sm: "SIZE_MAX \<noteq> 0" "\<not> SIZE_MAX \<le> 0" "\<not> SIZE_MAX \<le> 2"
    by (simp_all add: SIZE_MAX_def)
  have a: "size_le_capacity (Vector_default :: int Vector)"
    by (simp add: Vector_default_def RawMemory_default_def size_le_capacity_def Size_def
          Capacity_def)
  have b: "Erase int_elem world0 Vector_default 0
     = Returned world0 (\<lparr>m_data = RawMemory_default, m_size = SIZE_MAX\<rparr>, 0)"
    using sm
    by (simp add: Erase_def std_move_def end_pos_def slots_of_def with_slots_def size_t_dec_def
          Vector_default_def RawMemory_default_def world0_def Let_def)
  have c: "\<not> size_le_capacity (\<lparr>m_data = RawMemory_default, m_size = SIZE_MAX\<rparr> :: int Vector)"
    using sm by (simp add: size_le_capacity_def Size_def Capacity_def RawMemory_default_def)
  have d: "size_le_capacity
     (\<lparr>m_data = \<lparr>m_buffer = [None, None], m_capacity = 2\<rparr>, m_size = 0\<rparr> :: int Vector)"
    by (simp add: size_le_capacity_def Size_def Capacity_def)
  have e: "Erase int_elem world0
        \<lparr>m_data = \<lparr>m_buffer = [None, None], m_capacity = 2\<rparr>, m_size = 0\<rparr> 0
     = Returned world0
         (\<lparr>m_data = \<lparr>m_buffer = [None, None], m_capacity = 2\<rparr>, m_size = SIZE_MAX\<rparr>, 0)"
    using sm
    by (simp add: Erase_def std_move_def end_pos_def slots_of_def with_slots_def size_t_dec_def
          world0_def Let_def)
  have f: "\<not> size_le_capacity
     (\<lparr>m_data = \<lparr>m_buffer = [None, None], m_capacity = 2\<rparr>, m_size = SIZE_MAX\<rparr> :: int Vector)"
    using sm by (simp add: size_le_capacity_def Size_def Capacity_def)
  from a b c d e f show ?thesis by (intro conjI)
qed

section \<open>A throwing transfer on the growth path\<close>

lemma live_all_None:
  assumes "\<forall>i<length buf. buf ! i = None"
  shows "live buf = []"
proof -
  have "\<forall>s\<in>set buf. s = None" using assms by (auto simp: in_set_conv_nth)
  then show ?thesis by (simp add: live_def filter_empty_conv)
qed

lemma live_single:
  assumes "j < n"
  shows "live ((replicate n None)[j := Some x]) = [x]"
proof -
  have "(replicate n None)[j := Some x]
          = replicate j None @ [Some x] @ replicate (n - Suc j) None"
    using assms by (simp add: upd_conv_take_nth_drop)
  then show ?thesis by (simp add: live_def)
qed

lemma ucopy_Exn_fresh:
  assumes run: "uninitialized_copy_n E k src first n dst d = Exn k' dst'"
    and fresh: "\<forall>i. d \<le> i \<and> i < d + n \<and> i < length dst \<longrightarrow> dst ! i = None"
  shows "dst' = dst"
proof (rule nth_equalityI)
  note X = ucopy_Exn[OF run]
  from X show "length dst' = length dst" by simp
  fix i assume "i < length dst'"
  with X have i: "i < length dst" by simp
  with X have "dst' ! i = dst ! i \<or> (d \<le> i \<and> i < d + n \<and> dst' ! i = None)" by blast
  with fresh i show "dst' ! i = dst ! i" by auto
qed

text \<open>
  When the transfer copies (a copyable type whose move constructor may throw), a
  throwing \<^verbatim>\<open>CopyOrMoveData\<close> leaves the container as it was and the new buffer as
  the caller passed it, provided the slots \<open>[0, size)\<close> of the new buffer were free.
\<close>

lemma CopyOrMoveData_Threw_copy:
  assumes copy: "\<not> is_nothrow_move_constructible E" "is_copy_constructible E"
    and run: "CopyOrMoveData E w v nd = Threw w' (v', nd')"
    and fresh: "\<forall>i<m_size v. i < length (m_buffer nd) \<longrightarrow> m_buffer nd ! i = None"
  shows "v' = v" "nd' = nd" "leaked w' = leaked w"
proof -
  from run copy obtain k dst where
    cp: "uninitialized_copy_n E (clock w) (slots_of v) 0 (m_size v) (m_buffer nd) 0 = Exn k dst"
    and r: "w' = w\<lparr>clock := k\<rparr>" "v' = v" "nd' = nd\<lparr>m_buffer := dst\<rparr>"
    unfolding CopyOrMoveData_def swap_and_destroy_def RawMemory_Swap_def
    by (auto split: res.splits prod.splits)
  from ucopy_Exn_fresh[OF cp] fresh have "dst = m_buffer nd" by simp
  with r show "v' = v" "nd' = nd" "leaked w' = leaked w" by simp_all
qed

lemma Reserve_Threw_copy:
  assumes copy: "\<not> is_nothrow_move_constructible E" "is_copy_constructible E"
    and run: "Reserve E w v n = Threw w' v'"
  shows "v' = v" "leaked w' = leaked w"
proof -
  from run have gt: "\<not> n \<le> m_capacity (m_data v)" by (auto simp: Reserve_def split: if_splits)
  have "v' = v \<and> leaked w' = leaked w"
    using RawMemory_new_cases[of E w n]
  proof (elim disjE exE conjE)
    fix w1
    let ?nd = "\<lparr>m_buffer = replicate (block_slots E n) None, m_capacity = n\<rparr> :: 'a RawMemory"
    assume new: "RawMemory_new E w n = Returned w1 ?nd" and lk: "leaked w1 = leaked w"
    from run gt new have g: "\<not> length (m_buffer ?nd) < m_size v"
      by (auto simp: Reserve_def split: if_splits)
    from run gt new g obtain w2 nd' where
      cm: "CopyOrMoveData E w1 v ?nd = Threw w2 (v', nd')" and w': "w' = RawMemory_dtor w2 nd'"
      by (auto simp: Reserve_def split: outcome.splits prod.splits)
    have fresh: "\<forall>i<m_size v. i < length (m_buffer ?nd) \<longrightarrow> m_buffer ?nd ! i = None" by simp
    note C = CopyOrMoveData_Threw_copy[OF copy cm fresh]
    have "live (replicate (block_slots E n) None :: 'a slots) = []"
      by (rule live_all_None) simp
    with C w' lk show ?thesis
      by (simp add: RawMemory_dtor_def Deallocate_def)
  next
    fix w1 assume "RawMemory_new E w n = Threw w1 ()" "leaked w1 = leaked w"
    with run gt show ?thesis
      by (auto simp: Reserve_def)
  qed
  then show "v' = v" "leaked w' = leaked w" by simp_all
qed

text \<open>
  \<^verbatim>\<open>EmplaceBack\<close> at \<open>size = capacity\<close>, transfer by copy: whenever it throws, the
  container is as it was. When the allocation and the construction of the new
  element succeeded, so that the exception comes from the transfer, the new element
  is lost with the new buffer: no destructor runs for it.
\<close>

lemma EmplaceBack_Threw_copy:
  assumes copy: "\<not> is_nothrow_move_constructible E" "is_copy_constructible E"
    and full: "Size v = Capacity v"
    and run: "EmplaceBack E w v x = Threw w' v'"
  shows "v' = v"
    "\<not> throws E (clock w) \<Longrightarrow> \<not> throws E (Suc (clock w)) \<Longrightarrow> leaked w' = leaked w @ [x]"
proof -
  let ?n = "if m_size v = 0 then 1 else m_size v * 2"
  let ?nd = "\<lparr>m_buffer = replicate ?n None, m_capacity = ?n\<rparr> :: 'a RawMemory"
  let ?nd1 = "?nd\<lparr>m_buffer := (m_buffer ?nd)[m_size v := Some x]\<rparr>"
  have n: "m_size v < ?n" by simp
  have "v' = v \<and> (\<not> throws E (clock w) \<longrightarrow> \<not> throws E (Suc (clock w)) \<longrightarrow>
          leaked w' = leaked w @ [x])"
    using RawMemory_live_cases[of E w ?n]
  proof (elim disjE exE)
    fix w1
    assume new: "RawMemory_live E w ?n = Returned w1 ?nd"
    then have w1: "w1 = tick w" "\<not> throws E (clock w)"
      by (auto simp: RawMemory_live_def Allocate_def split: if_splits)
    show ?thesis
    proof (cases "throws E (clock w1)")
      case True
      with run new full have "v' = v" by (auto simp: EmplaceBack_def Size_def)
      with True w1 show ?thesis by (simp add: tick_def)
    next
      case False
      from CopyOrMoveData_shape[of E "tick w1" v ?nd1]
      show ?thesis
      proof (elim disjE exE conjE)
        fix w2 v1 nd'
        assume cm: "CopyOrMoveData E (tick w1) v ?nd1 = Returned w2 (v1, nd')"
          and s: "m_size v1 = m_size v" and c: "m_capacity (m_data v1) = m_capacity ?nd1"
        have "EmplaceBack_return (RawMemory_dtor w2 nd') (v1\<lparr>m_size := m_size v1 + 1\<rparr>)
            = Returned (RawMemory_dtor w2 nd') (v1\<lparr>m_size := m_size v1 + 1\<rparr>, m_size v1)"
          using s c n by (simp add: EmplaceBack_return_def RawMemory_at_def)
        with run new False cm full have False
          by (simp add: EmplaceBack_def Size_def)
        then show ?thesis ..
      next
        fix w2 v1 nd'
        assume cm: "CopyOrMoveData E (tick w1) v ?nd1 = Threw w2 (v1, nd')"
        with run new False full have r: "v' = v1" "w' = RawMemory_dtor w2 nd'"
          by (simp_all add: EmplaceBack_def Size_def)
        have fresh: "\<forall>i<m_size v. i < length (m_buffer ?nd1) \<longrightarrow> m_buffer ?nd1 ! i = None"
          by simp
        note C = CopyOrMoveData_Threw_copy[OF copy cm fresh]
        have "live (m_buffer ?nd1) = [x]"
        proof (cases "m_size v = 0")
          case True
          then show ?thesis by (simp add: live_def)
        next
          case False
          then have "m_size v < m_size v * 2" by simp
          from live_single[OF this, of x] False show ?thesis by simp
        qed
        with C r w1 show ?thesis
          by (simp add: RawMemory_dtor_def Deallocate_def tick_def)
      qed
    qed
  next
    fix w1 assume "RawMemory_live E w ?n = Threw w1 ()"
    moreover from this have "throws E (clock w)"
      by (auto simp: RawMemory_live_def Allocate_def split: if_splits)
    ultimately show ?thesis using run full by (simp add: EmplaceBack_def Size_def)
  qed
  then show "v' = v"
    "\<not> throws E (clock w) \<Longrightarrow> \<not> throws E (Suc (clock w)) \<Longrightarrow> leaked w' = leaked w @ [x]"
    by simp_all
qed


text \<open>
  C2, at concrete inputs. The element type copies on transfer (its move constructor
  may throw) and the container is \<open>[7, 8]\<close> with capacity 2, so each call reallocates.
  \<^verbatim>\<open>EmplaceBack(5)\<close> and \<^verbatim>\<open>PushBack(5)\<close>, with the copy of the first element throwing
  (operation 2, after the allocation and the construction of the new element):
  the container is unchanged, but the new element \<open>5\<close>, constructed in the new
  buffer, goes with that buffer and is never destroyed. \<^verbatim>\<open>Insert(begin() + 1, 5)\<close>,
  with the copy of the suffix throwing (operation 3): the container is unchanged,
  but the copy of the prefix \<open>7\<close> and the new element \<open>5\<close> are never destroyed.
  \<^verbatim>\<open>Reserve(5)\<close>, with the first copy throwing: the container is unchanged and
  nothing is lost.
\<close>

theorem growth_failure_leaks_new_element:
  "EmplaceBack (throwing_elem 2) world0 vec78 5 = Threw \<lparr>clock = 3, leaked = [5]\<rparr> vec78 \<and>
   PushBack (throwing_elem 2) world0 vec78 5 = Threw \<lparr>clock = 3, leaked = [5]\<rparr> vec78 \<and>
   Insert (throwing_elem 3) world0 vec78 1 5 = Threw \<lparr>clock = 4, leaked = [7, 5]\<rparr> vec78 \<and>
   Reserve (throwing_elem 1) world0 vec78 5 = Threw \<lparr>clock = 2, leaked = []\<rparr> vec78"
proof -
  have a: "EmplaceBack (throwing_elem 2) world0 vec78 5
             = Threw \<lparr>clock = 3, leaked = [5]\<rparr> vec78"
    by code_simp
  have b: "PushBack (throwing_elem 2) world0 vec78 5 = Threw \<lparr>clock = 3, leaked = [5]\<rparr> vec78"
    by code_simp
  have c: "Insert (throwing_elem 3) world0 vec78 1 5
             = Threw \<lparr>clock = 4, leaked = [7, 5]\<rparr> vec78"
    by code_simp
  have "request_fits (throwing_elem 1) 5" by (simp add: request_fits_def throwing_elem_def SIZE_MAX_def)
  moreover have "m_size vec78 \<le> m_capacity (m_data vec78)" "m_capacity (m_data vec78) < 5"
    by (simp_all add: vec78_def)
  ultimately have eq: "Reserve (throwing_elem 1) world0 vec78 5 =
     (case RawMemory_live (throwing_elem 1) world0 5 of
        Returned w1 new_data \<Rightarrow>
          (case CopyOrMoveData (throwing_elem 1) w1 vec78 new_data of
             Returned w2 (v', nd) \<Rightarrow> Returned (RawMemory_dtor w2 nd) v'
           | Threw w2 (v', nd) \<Rightarrow> Threw (RawMemory_dtor w2 nd) v'
           | Aborted \<Rightarrow> Aborted
           | Undefined \<Rightarrow> Undefined)
      | Threw w1 u \<Rightarrow> Threw w1 vec78
      | Aborted \<Rightarrow> Aborted
      | Undefined \<Rightarrow> Undefined)"
    by (rule Reserve_fits)
  have d: "Reserve (throwing_elem 1) world0 vec78 5 = Threw \<lparr>clock = 2, leaked = []\<rparr> vec78"
    unfolding eq by code_simp
  from a b c d show ?thesis by (intro conjI)
qed

end
